theory Spec2Isabelle
  imports Main "HOL-Library.Word"
begin

unbundle bit_operations_syntax

section \<open>Machine types of the contract\<close>

text \<open>
  The contract \<open>EscrowMarketplace.ts\<close> is AssemblyScript: \<open>u8\<close>, \<open>u16\<close>, \<open>u64\<close> are
  wrapping machine integers, \<open>u256\<close> is the 256-bit unsigned integer of the runtime, and
  an \<open>Address\<close> is a 32-byte value compared bytewise, read here as one 256-bit word
  (the zero address is the word 0).
\<close>

type_synonym u8 = "8 word"
type_synonym u16 = "16 word"
type_synonym u64 = "64 word"
type_synonym u256 = "256 word"
type_synonym address = "256 word"

definition zero_address :: address where
  "zero_address = 0"

text \<open>\<open>u256.toU64()\<close> keeps the low 64 bits; \<open>u256.fromU64\<close> zero-extends.\<close>

definition toU64 :: "u256 \<Rightarrow> u64" where
  "toU64 v = ucast v"

definition fromU64 :: "u64 \<Rightarrow> u256" where
  "fromU64 v = ucast v"

section \<open>Order states and pointers\<close>

definition STATE_CREATED :: u64 where "STATE_CREATED = 1"
definition STATE_ACCEPTED :: u64 where "STATE_ACCEPTED = 2"
definition STATE_FUNDED :: u64 where "STATE_FUNDED = 3"
definition STATE_COMPLETED :: u64 where "STATE_COMPLETED = 4"
definition STATE_CANCELLED :: u64 where "STATE_CANCELLED = 5"
definition STATE_DISPUTED :: u64 where "STATE_DISPUTED = 6"

text \<open>
  \<open>subPtr\<close> allocates 32 zero bytes and stores the eight bytes of the order id,
  most significant first, at the indices 24 to 31.
\<close>

definition subPtr :: "u64 \<Rightarrow> u8 list" where
  "subPtr orderId =
     (let buf = replicate 32 (0 :: u8);
          buf = buf[24 := ucast (drop_bit 56 orderId AND 0xff)];
          buf = buf[25 := ucast (drop_bit 48 orderId AND 0xff)];
          buf = buf[26 := ucast (drop_bit 40 orderId AND 0xff)];
          buf = buf[27 := ucast (drop_bit 32 orderId AND 0xff)];
          buf = buf[28 := ucast (drop_bit 24 orderId AND 0xff)];
          buf = buf[29 := ucast (drop_bit 16 orderId AND 0xff)];
          buf = buf[30 := ucast (drop_bit 8 orderId AND 0xff)];
          buf = buf[31 := ucast (orderId AND 0xff)]
      in buf)"

definition PTR_ORDER_COUNT :: u16 where "PTR_ORDER_COUNT = 1"
definition PTR_PRICE :: u16 where "PTR_PRICE = 10"
definition PTR_LOCKED :: u16 where "PTR_LOCKED = 11"
definition PTR_STATE :: u16 where "PTR_STATE = 12"
definition PTR_DEADLINE :: u16 where "PTR_DEADLINE = 13"
definition PTR_ACCEPTED_AT :: u16 where "PTR_ACCEPTED_AT = 14"
definition PTR_SELLER_BASE :: u16 where "PTR_SELLER_BASE = 100"
definition PTR_BUYER_BASE :: u16 where "PTR_BUYER_BASE = 10000"

text \<open>
  The pointer of an address slot: \<open>u16(PTR_SELLER_BASE + orderId)\<close>. The sum of a
  \<open>u16\<close> and a \<open>u64\<close> is computed in 64 bits and the cast keeps the low 16 bits.
\<close>

definition sellerPtr :: "u64 \<Rightarrow> u16" where
  "sellerPtr orderId = ucast (ucast PTR_SELLER_BASE + orderId)"

definition buyerPtr :: "u64 \<Rightarrow> u16" where
  "buyerPtr orderId = ucast (ucast PTR_BUYER_BASE + orderId)"

section \<open>The persistent store of the host\<close>

text \<open>
  The runtime classes \<open>StoredU256\<close> and \<open>StoredAddress\<close> belong to the host library,
  not to the contract. They are taken with the interface the contract relies on: a wide
  slot is addressed by a 16-bit pointer and a 32-byte sub-pointer and holds a 256-bit
  word, a narrow slot is addressed by a 16-bit pointer alone and holds an address, the
  two kinds of slot are apart, and a slot that was never written reads as zero.
\<close>

datatype key = Wide u16 "u8 list" | Narrow u16

type_synonym storage = "key \<Rightarrow> u256"

definition loadU256 :: "storage \<Rightarrow> u16 \<Rightarrow> u8 list \<Rightarrow> u256" where
  "loadU256 s p sub = s (Wide p sub)"

definition storeU256 :: "storage \<Rightarrow> u16 \<Rightarrow> u8 list \<Rightarrow> u256 \<Rightarrow> storage" where
  "storeU256 s p sub v = s(Wide p sub := v)"

definition loadAddress :: "storage \<Rightarrow> u16 \<Rightarrow> address" where
  "loadAddress s p = s (Narrow p)"

definition storeAddress :: "storage \<Rightarrow> u16 \<Rightarrow> address \<Rightarrow> storage" where
  "storeAddress s p a = s(Narrow p := a)"

definition empty_storage :: storage where
  "empty_storage = (\<lambda>_. 0)"

text \<open>What the host supplies to a call: \<open>Blockchain.tx.sender\<close> and \<open>Blockchain.block.number\<close>.\<close>

record env =
  sender :: address
  blockNumber :: u64

section \<open>Aborts\<close>

text \<open>
  A failed \<open>assert\<close> and a failed checked addition both abort the call. A method body
  returns either the abort together with the store as it stood at that moment, or its
  result together with the store it leaves.
\<close>

datatype error = AssertionFailed string | AdditionOverflow

type_synonym 'a outcome = "(error \<times> storage) + ('a \<times> storage)"

text \<open>
  \<open>SafeMath.add64\<close> and \<open>SafeMath.add\<close> of the host library: the wrapped sum, and an
  abort when it is smaller than the first operand.
\<close>

definition add64 :: "u64 \<Rightarrow> u64 \<Rightarrow> error + u64" where
  "add64 a b = (let c = a + b in if c < a then Inl AdditionOverflow else Inr c)"

definition add256 :: "u256 \<Rightarrow> u256 \<Rightarrow> error + u256" where
  "add256 a b = (let c = a + b in if c < a then Inl AdditionOverflow else Inr c)"

section \<open>The methods of EscrowMarketplace\<close>

definition onDeployment :: "storage \<Rightarrow> storage" where
  "onDeployment s = storeU256 s PTR_ORDER_COUNT (replicate 32 0) 0"

definition createOrder :: "env \<Rightarrow> u256 \<Rightarrow> u64 \<Rightarrow> storage \<Rightarrow> u64 outcome" where
  "createOrder e price deadlineBlocks s =
     (if \<not> (price > 0) then Inl (AssertionFailed ''Price must be > 0'', s)
      else if \<not> (deadlineBlocks \<ge> 6) then Inl (AssertionFailed ''Deadline must be >= 6 blocks'', s)
      else
        case add64 (toU64 (loadU256 s PTR_ORDER_COUNT (replicate 32 0))) 1 of
          Inl err \<Rightarrow> Inl (err, s)
        | Inr orderId \<Rightarrow>
            let s1 = storeU256 s PTR_ORDER_COUNT (replicate 32 0) (fromU64 orderId);
                ptr = subPtr orderId;
                s2 = storeAddress s1 (sellerPtr orderId) (sender e);
                s3 = storeU256 s2 PTR_PRICE ptr price;
                s4 = storeU256 s3 PTR_LOCKED ptr 0;
                s5 = storeU256 s4 PTR_STATE ptr (fromU64 STATE_CREATED)
            in case add64 (blockNumber e) deadlineBlocks of
                 Inl err \<Rightarrow> Inl (err, s5)
               | Inr d \<Rightarrow>
                   let s6 = storeU256 s5 PTR_DEADLINE ptr (fromU64 d);
                       s7 = storeU256 s6 PTR_ACCEPTED_AT ptr 0
                   in Inr (orderId, s7))"

definition acceptOrder :: "env \<Rightarrow> u64 \<Rightarrow> storage \<Rightarrow> bool outcome" where
  "acceptOrder e orderId s =
     (let ptr = subPtr orderId in
      if \<not> (toU64 (loadU256 s PTR_STATE ptr) = STATE_CREATED)
        then Inl (AssertionFailed ''Order not in Created state'', s)
      else if \<not> (blockNumber e \<le> toU64 (loadU256 s PTR_DEADLINE ptr))
        then Inl (AssertionFailed ''Order deadline passed'', s)
      else
        let s1 = storeAddress s (buyerPtr orderId) (sender e);
            s2 = storeU256 s1 PTR_STATE ptr (fromU64 STATE_ACCEPTED);
            s3 = storeU256 s2 PTR_ACCEPTED_AT ptr (fromU64 (blockNumber e))
        in Inr (True, s3))"

definition fundOrder :: "env \<Rightarrow> u64 \<Rightarrow> storage \<Rightarrow> bool outcome" where
  "fundOrder e orderId s =
     (let ptr = subPtr orderId in
      if \<not> (toU64 (loadU256 s PTR_STATE ptr) = STATE_ACCEPTED)
        then Inl (AssertionFailed ''Order not in Accepted state'', s)
      else if \<not> (loadAddress s (buyerPtr orderId) = sender e)
        then Inl (AssertionFailed ''Only buyer can fund'', s)
      else
        let s1 = storeU256 s PTR_LOCKED ptr (loadU256 s PTR_PRICE ptr);
            s2 = storeU256 s1 PTR_STATE ptr (fromU64 STATE_FUNDED)
        in Inr (True, s2))"

definition confirmCompletion :: "env \<Rightarrow> u64 \<Rightarrow> storage \<Rightarrow> bool outcome" where
  "confirmCompletion e orderId s =
     (let ptr = subPtr orderId in
      if \<not> (toU64 (loadU256 s PTR_STATE ptr) = STATE_FUNDED)
        then Inl (AssertionFailed ''Order not in Funded state'', s)
      else if \<not> (loadAddress s (buyerPtr orderId) = sender e)
        then Inl (AssertionFailed ''Only buyer can confirm'', s)
      else
        let s1 = storeU256 s PTR_LOCKED ptr 0;
            s2 = storeU256 s1 PTR_STATE ptr (fromU64 STATE_COMPLETED)
        in Inr (True, s2))"

definition cancelOrder :: "env \<Rightarrow> u64 \<Rightarrow> storage \<Rightarrow> bool outcome" where
  "cancelOrder e orderId s =
     (let ptr = subPtr orderId;
          state = toU64 (loadU256 s PTR_STATE ptr) in
      if \<not> (state = STATE_CREATED \<or> state = STATE_ACCEPTED \<or>
             state = STATE_FUNDED \<or> state = STATE_DISPUTED)
        then Inl (AssertionFailed ''Cannot cancel in current state'', s)
      else if \<not> (loadAddress s (sellerPtr orderId) = sender e \<or>
                  loadAddress s (buyerPtr orderId) = sender e)
        then Inl (AssertionFailed ''Only seller or buyer can cancel'', s)
      else
        let s1 = storeU256 s PTR_LOCKED ptr 0;
            s2 = storeU256 s1 PTR_STATE ptr (fromU64 STATE_CANCELLED)
        in Inr (True, s2))"

definition openDispute :: "env \<Rightarrow> u64 \<Rightarrow> storage \<Rightarrow> bool outcome" where
  "openDispute e orderId s =
     (let ptr = subPtr orderId in
      if \<not> (toU64 (loadU256 s PTR_STATE ptr) = STATE_FUNDED)
        then Inl (AssertionFailed ''Can only dispute Funded orders'', s)
      else if \<not> (loadAddress s (sellerPtr orderId) = sender e \<or>
                  loadAddress s (buyerPtr orderId) = sender e)
        then Inl (AssertionFailed ''Only seller or buyer can open dispute'', s)
      else
        let s1 = storeU256 s PTR_STATE ptr (fromU64 STATE_DISPUTED)
        in Inr (True, s1))"

text \<open>\<open>getOrder\<close> only reads; its eight results are the fields of a record.\<close>

record order_view =
  v_orderId :: u64
  v_seller :: address
  v_buyer :: address
  v_price :: u256
  v_locked :: u256
  v_state :: u8
  v_deadline :: u64
  v_acceptedAt :: u64

definition getOrder :: "u64 \<Rightarrow> storage \<Rightarrow> order_view" where
  "getOrder orderId s =
     (let ptr = subPtr orderId in
      \<lparr>v_orderId = orderId,
       v_seller = loadAddress s (sellerPtr orderId),
       v_buyer = loadAddress s (buyerPtr orderId),
       v_price = loadU256 s PTR_PRICE ptr,
       v_locked = loadU256 s PTR_LOCKED ptr,
       v_state = ucast (toU64 (loadU256 s PTR_STATE ptr)),
       v_deadline = toU64 (loadU256 s PTR_DEADLINE ptr),
       v_acceptedAt = toU64 (loadU256 s PTR_ACCEPTED_AT ptr)\<rparr>)"

text \<open>
  The loop of \<open>getEscrowStats\<close>: \<open>for (let i: u64 = 1; i <= count; i++)\<close>. The counter
  is a \<open>u64\<close> and \<open>i++\<close> wraps, so the loop is a partial function: \<open>None\<close> is a loop
  that never leaves.
\<close>

partial_function (option) statsLoop :: "storage \<Rightarrow> u64 \<Rightarrow> u64 \<Rightarrow> u256 \<Rightarrow> (error + u256) option" where
  "statsLoop s count i totalLocked =
     (if i \<le> count then
        (let state = toU64 (loadU256 s PTR_STATE (subPtr i)) in
         if state = STATE_FUNDED \<or> state = STATE_DISPUTED then
           (case add256 totalLocked (loadU256 s PTR_LOCKED (subPtr i)) of
              Inl err \<Rightarrow> Some (Inl err)
            | Inr t \<Rightarrow> statsLoop s count (i + 1) t)
         else statsLoop s count (i + 1) totalLocked)
      else Some (Inr totalLocked))"

definition getEscrowStats :: "storage \<Rightarrow> (error + u256 \<times> u256 \<times> u64) option" where
  "getEscrowStats s =
     (let count = toU64 (loadU256 s PTR_ORDER_COUNT (replicate 32 0)) in
      case statsLoop s count 1 0 of
        None \<Rightarrow> None
      | Some (Inl err) \<Rightarrow> Some (Inl err)
      | Some (Inr totalLocked) \<Rightarrow> Some (Inr (totalLocked, totalLocked, count)))"

section \<open>Calls and the host's revert\<close>

datatype call =
    CreateOrder u256 u64
  | AcceptOrder u64
  | FundOrder u64
  | ConfirmCompletion u64
  | CancelOrder u64
  | OpenDispute u64

datatype ret = RetOrderId u64 | RetOk bool

definition retId :: "u64 outcome \<Rightarrow> ret outcome" where
  "retId r = map_sum id (\<lambda>(i, s). (RetOrderId i, s)) r"

definition retOk :: "bool outcome \<Rightarrow> ret outcome" where
  "retOk r = map_sum id (\<lambda>(b, s). (RetOk b, s)) r"

fun body :: "env \<Rightarrow> call \<Rightarrow> storage \<Rightarrow> ret outcome" where
  "body e (CreateOrder price deadlineBlocks) s = retId (createOrder e price deadlineBlocks s)"
| "body e (AcceptOrder orderId) s = retOk (acceptOrder e orderId s)"
| "body e (FundOrder orderId) s = retOk (fundOrder e orderId s)"
| "body e (ConfirmCompletion orderId) s = retOk (confirmCompletion e orderId s)"
| "body e (CancelOrder orderId) s = retOk (cancelOrder e orderId s)"
| "body e (OpenDispute orderId) s = retOk (openDispute e orderId s)"

text \<open>
  The entry point hands every abort to \<open>revertOnError\<close> of the host, which discards
  the writes of the call: the store a caller observes after an aborted call is the
  store before it.
\<close>

definition invoke :: "env \<Rightarrow> call \<Rightarrow> storage \<Rightarrow> (error + ret) \<times> storage" where
  "invoke e c s =
     (case body e c s of
        Inl (err, _) \<Rightarrow> (Inl err, s)
      | Inr (r, s') \<Rightarrow> (Inr r, s'))"

text \<open>A history of calls, each with the environment the host gave it.\<close>

fun run :: "(env \<times> call) list \<Rightarrow> storage \<Rightarrow> storage" where
  "run [] s = s"
| "run ((e, c) # cs) s = run cs (snd (invoke e c s))"

definition deployed :: storage where
  "deployed = onDeployment empty_storage"

section \<open>The fields of an order, as the methods read them\<close>

definition orderCount :: "storage \<Rightarrow> u64" where
  "orderCount s = toU64 (loadU256 s PTR_ORDER_COUNT (replicate 32 0))"

definition stateOf :: "storage \<Rightarrow> u64 \<Rightarrow> u64" where
  "stateOf s orderId = toU64 (loadU256 s PTR_STATE (subPtr orderId))"

definition priceOf :: "storage \<Rightarrow> u64 \<Rightarrow> u256" where
  "priceOf s orderId = loadU256 s PTR_PRICE (subPtr orderId)"

definition lockedOf :: "storage \<Rightarrow> u64 \<Rightarrow> u256" where
  "lockedOf s orderId = loadU256 s PTR_LOCKED (subPtr orderId)"

definition deadlineOf :: "storage \<Rightarrow> u64 \<Rightarrow> u64" where
  "deadlineOf s orderId = toU64 (loadU256 s PTR_DEADLINE (subPtr orderId))"

definition acceptedAtOf :: "storage \<Rightarrow> u64 \<Rightarrow> u64" where
  "acceptedAtOf s orderId = toU64 (loadU256 s PTR_ACCEPTED_AT (subPtr orderId))"

definition sellerOf :: "storage \<Rightarrow> u64 \<Rightarrow> address" where
  "sellerOf s orderId = loadAddress s (sellerPtr orderId)"

definition buyerOf :: "storage \<Rightarrow> u64 \<Rightarrow> address" where
  "buyerOf s orderId = loadAddress s (buyerPtr orderId)"

text \<open>
  The storage key of each field of an order, collected from the constructor calls
  \<open>new StoredU256(PTR_..., subPtr(orderId))\<close> and
  \<open>new StoredAddress(u16(PTR_..._BASE + orderId))\<close> of the methods, and the key of the
  order counter, \<open>new StoredU256(PTR_ORDER_COUNT, new Uint8Array(32))\<close>.
\<close>

datatype fieldKind = Seller | Buyer | Price | Locked | State | Deadline | AcceptedAt

fun resolve :: "fieldKind \<Rightarrow> u64 \<Rightarrow> key" where
  "resolve Seller orderId = Narrow (sellerPtr orderId)"
| "resolve Buyer orderId = Narrow (buyerPtr orderId)"
| "resolve Price orderId = Wide PTR_PRICE (subPtr orderId)"
| "resolve Locked orderId = Wide PTR_LOCKED (subPtr orderId)"
| "resolve State orderId = Wide PTR_STATE (subPtr orderId)"
| "resolve Deadline orderId = Wide PTR_DEADLINE (subPtr orderId)"
| "resolve AcceptedAt orderId = Wide PTR_ACCEPTED_AT (subPtr orderId)"

definition orderCountKey :: key where
  "orderCountKey = Wide PTR_ORDER_COUNT (replicate 32 0)"

section \<open>Invariants, histories and sample data\<close>

text \<open>
  An order exists when its state slot is not zero; every existing order has an id between
  1 and the order counter.
\<close>

definition exists_inv :: "storage \<Rightarrow> bool" where
  "exists_inv s \<longleftrightarrow> (\<forall>oid. stateOf s oid \<noteq> 0 \<longrightarrow> 1 \<le> oid \<and> oid \<le> orderCount s)"

text \<open>
  The escrowed amount: nonzero only for a Funded or Disputed order, and then the price.
\<close>

definition locked_inv :: "storage \<Rightarrow> bool" where
  "locked_inv s \<longleftrightarrow>
     (\<forall>oid. lockedOf s oid \<noteq> 0 \<longrightarrow>
        (stateOf s oid = STATE_FUNDED \<or> stateOf s oid = STATE_DISPUTED)
        \<and> lockedOf s oid = priceOf s oid)"

text \<open>
  Every id up to the order counter carries one of the six states.
\<close>

definition states_inv :: "storage \<Rightarrow> bool" where
  "states_inv s \<longleftrightarrow>
     (\<forall>oid. 1 \<le> oid \<and> oid \<le> orderCount s \<longrightarrow>
        stateOf s oid \<in> {STATE_CREATED, STATE_ACCEPTED, STATE_FUNDED, STATE_COMPLETED,
          STATE_CANCELLED, STATE_DISPUTED})"

text \<open>
  The buyer slots while at most 9900 orders exist, which is as long as the seller
  pointers \<open>100 + orderId\<close> stay below the buyer pointers \<open>10000 + orderId\<close>: empty
  for an order not yet created or still Created, taken once the order has been accepted.
\<close>

definition buyer_inv :: "storage \<Rightarrow> bool" where
  "buyer_inv s \<longleftrightarrow>
     (orderCount s \<le> 9900 \<longrightarrow>
        (\<forall>oid. 1 \<le> oid \<and> oid \<le> 9900 \<longrightarrow>
           (orderCount s < oid \<longrightarrow> buyerOf s oid = zero_address)
           \<and> (stateOf s oid = STATE_CREATED \<longrightarrow> buyerOf s oid = zero_address)
           \<and> (stateOf s oid \<in> {STATE_ACCEPTED, STATE_FUNDED, STATE_COMPLETED, STATE_DISPUTED}
                \<longrightarrow> buyerOf s oid \<noteq> zero_address)))"

text \<open>
  The five methods that take an order id, as calls on one order.
\<close>

definition targets :: "u64 \<Rightarrow> call set" where
  "targets orderId = {AcceptOrder orderId, FundOrder orderId, ConfirmCompletion orderId,
     CancelOrder orderId, OpenDispute orderId}"

text \<open>
  The order ids returned by the successful \<open>createOrder\<close> calls of a history.
\<close>

fun createdIds :: "(env \<times> call) list \<Rightarrow> storage \<Rightarrow> u64 list" where
  "createdIds [] s = []"
| "createdIds ((e, c) # cs) s =
     (case fst (invoke e c s) of Inr (RetOrderId orderId) \<Rightarrow> [orderId] | _ \<Rightarrow> [])
     @ createdIds cs (snd (invoke e c s))"

text \<open>
  The aggregate of \<open>getEscrowStats\<close> as its description words it: the locked amounts
  of the Funded and Disputed orders with ids \<open>j\<close> to \<open>n\<close>, added as natural numbers, and
  the checked 256-bit reading of such a sum.
\<close>

definition fundedLocked :: "storage \<Rightarrow> u64 \<Rightarrow> nat" where
  "fundedLocked s orderId =
     (if stateOf s orderId = STATE_FUNDED \<or> stateOf s orderId = STATE_DISPUTED
      then unat (lockedOf s orderId) else 0)"

definition lockedTotal :: "storage \<Rightarrow> nat \<Rightarrow> nat \<Rightarrow> nat" where
  "lockedTotal s j n = sum_list (map (\<lambda>i. fundedLocked s (of_nat i)) [j ..< Suc n])"

definition checkedTotal :: "nat \<Rightarrow> error + u256" where
  "checkedTotal t = (if t < 2 ^ 256 then Inr (of_nat t) else Inl AdditionOverflow)"

definition no_escrow :: "storage \<Rightarrow> bool" where
  "no_escrow s \<longleftrightarrow> (\<forall>j. stateOf s j \<noteq> STATE_FUNDED \<and> stateOf s j \<noteq> STATE_DISPUTED)"

text \<open>
  Two callers and a few histories of one order, used to run the methods on concrete
  inputs; \<open>t_market\<close> is the scenario of three orders with the second funded and the
  third disputed, \<open>t_unsigned\<close> has an acceptance sent from the zero address, and
  \<open>many_creates n\<close> is \<open>n\<close> creations in a row.
\<close>

definition alice :: address where "alice = 0xA11CE"

definition bob :: address where "bob = 0xB0B"

definition env_of :: "address \<Rightarrow> u64 \<Rightarrow> env" where
  "env_of a n = \<lparr>sender = a, blockNumber = n\<rparr>"

definition t_create :: "(env \<times> call) list" where
  "t_create = [(env_of alice 100, CreateOrder 500 6)]"

definition t_accept :: "(env \<times> call) list" where
  "t_accept = t_create @ [(env_of bob 101, AcceptOrder 1)]"

definition t_fund :: "(env \<times> call) list" where
  "t_fund = t_accept @ [(env_of bob 102, FundOrder 1)]"

definition t_cancel :: "(env \<times> call) list" where
  "t_cancel = t_create @ [(env_of alice 101, CancelOrder 1)]"

definition t_complete :: "(env \<times> call) list" where
  "t_complete = t_fund @ [(env_of bob 103, ConfirmCompletion 1)]"

definition t_dispute :: "(env \<times> call) list" where
  "t_dispute = t_fund @ [(env_of alice 103, OpenDispute 1)]"

definition t_market :: "(env \<times> call) list" where
  "t_market =
     [(env_of alice 100, CreateOrder 100 6), (env_of alice 100, CreateOrder 500 6),
      (env_of alice 100, CreateOrder 300 6),
      (env_of bob 101, AcceptOrder 2), (env_of bob 102, FundOrder 2),
      (env_of bob 101, AcceptOrder 3), (env_of bob 102, FundOrder 3),
      (env_of alice 103, OpenDispute 3)]"

definition t_unsigned :: "(env \<times> call) list" where
  "t_unsigned = [(env_of alice 100, CreateOrder 500 6), (env_of zero_address 101, AcceptOrder 1)]"

definition many_creates :: "nat \<Rightarrow> (env \<times> call) list" where
  "many_creates n = replicate n (env_of alice 100, CreateOrder 500 6)"

section \<open>Basic facts\<close>

lemmas state_defs = STATE_CREATED_def STATE_ACCEPTED_def STATE_FUNDED_def
  STATE_COMPLETED_def STATE_CANCELLED_def STATE_DISPUTED_def

lemmas ptr_defs = PTR_ORDER_COUNT_def PTR_PRICE_def PTR_LOCKED_def PTR_STATE_def
  PTR_DEADLINE_def PTR_ACCEPTED_AT_def PTR_SELLER_BASE_def PTR_BUYER_BASE_def

lemmas field_defs = orderCount_def stateOf_def priceOf_def lockedOf_def deadlineOf_def
  acceptedAtOf_def sellerOf_def buyerOf_def

lemmas op_defs = createOrder_def acceptOrder_def fundOrder_def confirmCompletion_def
  cancelOrder_def openDispute_def

subsection \<open>The sub-pointer\<close>

lemma subPtr_nth:
  "subPtr x ! 24 = ucast (drop_bit 56 x AND 0xff)"
  "subPtr x ! 25 = ucast (drop_bit 48 x AND 0xff)"
  "subPtr x ! 26 = ucast (drop_bit 40 x AND 0xff)"
  "subPtr x ! 27 = ucast (drop_bit 32 x AND 0xff)"
  "subPtr x ! 28 = ucast (drop_bit 24 x AND 0xff)"
  "subPtr x ! 29 = ucast (drop_bit 16 x AND 0xff)"
  "subPtr x ! 30 = ucast (drop_bit 8 x AND 0xff)"
  "subPtr x ! 31 = ucast (drop_bit 0 x AND 0xff)"
  by (simp_all add: subPtr_def Let_def)

lemma subPtr_length: "length (subPtr x) = 32"
  by (simp add: subPtr_def Let_def)

lemma subPtr_upper: "n < 24 \<Longrightarrow> subPtr x ! n = 0"
  by (simp add: subPtr_def Let_def)

lemma byte_bit:
  fixes x :: u64
  assumes "n < 8"
  shows "bit (ucast (drop_bit k x AND 0xff) :: u8) n = bit x (k + n)"
proof -
  have m: "(0xff :: u64) = mask 8" by (simp add: mask_eq_exp_minus_1)
  show ?thesis using assms unfolding m
    by (auto simp add: bit_simps ac_simps dest: bit_imp_le_length)
qed

lemma byte_bits:
  fixes x y :: u64
  assumes "(ucast (drop_bit k x AND 0xff) :: u8) = ucast (drop_bit k y AND 0xff)"
    and "n < 8"
  shows "bit x (k + n) = bit y (k + n)"
  using byte_bit [OF assms(2), of k x] byte_bit [OF assms(2), of k y] assms(1) by simp

lemma subPtr_inj:
  assumes eq: "subPtr x = subPtr y"
  shows "x = y"
proof (rule bit_word_eqI)
  fix n assume n: "n < LENGTH(64)"
  note b = subPtr_nth [of x, unfolded eq subPtr_nth [of y]]
  define q r where "q = n div 8" and "r = n mod 8"
  have qr: "n = 8 * q + r" "r < 8" "q < 8"
    using n by (simp_all add: q_def r_def)
  from \<open>q < 8\<close> consider "q = 0" | "q = 1" | "q = 2" | "q = 3" | "q = 4" | "q = 5" | "q = 6" | "q = 7"
    by linarith
  then show "bit x n = bit y n"
  proof cases
    case 1 then show ?thesis using byte_bits [OF b(8) qr(2)] qr(1) by simp
  next
    case 2 then show ?thesis using byte_bits [OF b(7) qr(2)] qr(1) by simp
  next
    case 3 then show ?thesis using byte_bits [OF b(6) qr(2)] qr(1) by simp
  next
    case 4 then show ?thesis using byte_bits [OF b(5) qr(2)] qr(1) by simp
  next
    case 5 then show ?thesis using byte_bits [OF b(4) qr(2)] qr(1) by simp
  next
    case 6 then show ?thesis using byte_bits [OF b(3) qr(2)] qr(1) by simp
  next
    case 7 then show ?thesis using byte_bits [OF b(2) qr(2)] qr(1) by simp
  next
    case 8 then show ?thesis using byte_bits [OF b(1) qr(2)] qr(1) by simp
  qed
qed

lemma subPtr_eq_iff [simp]: "subPtr x = subPtr y \<longleftrightarrow> x = y"
  using subPtr_inj by blast

lemma subPtr_big_endian:
  assumes "k < 8" "n < 8"
  shows "bit (subPtr i ! (24 + k)) n = bit i (8 * (7 - k) + n)"
proof -
  from assms(1) consider "k = 0" | "k = 1" | "k = 2" | "k = 3" | "k = 4" | "k = 5" | "k = 6" | "k = 7"
    by linarith
  then show ?thesis
    using byte_bit [OF assms(2), of _ i] byte_bit [OF assms(2), of 0 i, simplified]
    by cases (simp_all add: subPtr_nth)
qed

lemma subPtr_structure:
  "length (subPtr i) = 32 \<and> (\<forall>n < 24. subPtr i ! n = 0)
   \<and> (\<forall>k < 8. \<forall>n < 8. bit (subPtr i ! (24 + k)) n = bit i (8 * (7 - k) + n))"
  using subPtr_length subPtr_upper subPtr_big_endian by blast

subsection \<open>Loads after stores\<close>

lemma load_store [simp]:
  "loadU256 (storeU256 s p sub v) p' sub' = (if p' = p \<and> sub' = sub then v else loadU256 s p' sub')"
  "loadU256 (storeAddress s q a) p' sub' = loadU256 s p' sub'"
  "loadAddress (storeAddress s q a) q' = (if q' = q then a else loadAddress s q')"
  "loadAddress (storeU256 s p sub v) q' = loadAddress s q'"
  by (simp_all add: loadU256_def storeU256_def loadAddress_def storeAddress_def)

lemma load_empty [simp]:
  "loadU256 empty_storage p sub = 0" "loadAddress empty_storage q = 0"
  by (simp_all add: loadU256_def loadAddress_def empty_storage_def)

lemma toU64_fromU64 [simp]: "toU64 (fromU64 x) = x"
  by (simp add: toU64_def fromU64_def ucast_up_ucast_id is_up)

lemma toU64_0 [simp]: "toU64 0 = 0"
  by (simp add: toU64_def)

lemma ptr_distinct [simp]:
  "PTR_ORDER_COUNT \<noteq> PTR_PRICE" "PTR_ORDER_COUNT \<noteq> PTR_LOCKED" "PTR_ORDER_COUNT \<noteq> PTR_STATE"
  "PTR_ORDER_COUNT \<noteq> PTR_DEADLINE" "PTR_ORDER_COUNT \<noteq> PTR_ACCEPTED_AT"
  "PTR_PRICE \<noteq> PTR_LOCKED" "PTR_PRICE \<noteq> PTR_STATE" "PTR_PRICE \<noteq> PTR_DEADLINE"
  "PTR_PRICE \<noteq> PTR_ACCEPTED_AT" "PTR_LOCKED \<noteq> PTR_STATE" "PTR_LOCKED \<noteq> PTR_DEADLINE"
  "PTR_LOCKED \<noteq> PTR_ACCEPTED_AT" "PTR_STATE \<noteq> PTR_DEADLINE" "PTR_STATE \<noteq> PTR_ACCEPTED_AT"
  "PTR_DEADLINE \<noteq> PTR_ACCEPTED_AT"
  by (simp_all add: ptr_defs)

lemmas ptr_distinct_sym [simp] = ptr_distinct [symmetric]

lemma deployed_fields [simp]:
  "loadU256 deployed p sub = 0" "loadAddress deployed q = 0"
  by (simp_all add: deployed_def onDeployment_def)

lemma orderCount_deployed [simp]: "orderCount deployed = 0"
  by (simp add: orderCount_def)

subsection \<open>Checked addition\<close>

lemma wrap_less_iff:
  fixes a b M :: nat
  assumes "a < M" "b < M"
  shows "(a + b) mod M < a \<longleftrightarrow> M \<le> a + b"
proof (cases "M \<le> a + b")
  case True
  then have "(a + b) mod M = a + b - M"
    using assms by (simp add: le_mod_geq)
  then show ?thesis using True assms by simp
next
  case False
  then show ?thesis by simp
qed

lemma add64_Inr: "add64 a b = Inr c \<longleftrightarrow> (c = a + b \<and> unat a + unat b < 2 ^ 64)"
  unfolding add64_def Let_def
  using wrap_less_iff [of "unat a" "2 ^ 64" "unat b"]
    unsigned_less [of a, where ?'a = nat] unsigned_less [of b, where ?'a = nat]
  by (auto simp: word_less_nat_alt unat_word_ariths)

lemma add64_Inl: "add64 a b = Inl err \<longleftrightarrow> (err = AdditionOverflow \<and> 2 ^ 64 \<le> unat a + unat b)"
  unfolding add64_def Let_def
  using wrap_less_iff [of "unat a" "2 ^ 64" "unat b"]
    unsigned_less [of a, where ?'a = nat] unsigned_less [of b, where ?'a = nat]
  by (auto simp: word_less_nat_alt unat_word_ariths)

lemma add64_one: "add64 a 1 = Inr c \<Longrightarrow> a < c \<and> 1 \<le> c \<and> unat c = Suc (unat a) \<and> c = a + 1"
  by (auto simp: add64_Inr word_less_nat_alt word_le_nat_alt unat_word_ariths)

lemma add256_Inr: "add256 a b = Inr c \<longleftrightarrow> (c = a + b \<and> unat a + unat b < 2 ^ 256)"
  unfolding add256_def Let_def
  using wrap_less_iff [of "unat a" "2 ^ 256" "unat b"]
    unsigned_less [of a, where ?'a = nat] unsigned_less [of b, where ?'a = nat]
  by (auto simp: word_less_nat_alt unat_word_ariths)

lemma add256_Inl: "add256 a b = Inl err \<longleftrightarrow> (err = AdditionOverflow \<and> 2 ^ 256 \<le> unat a + unat b)"
  unfolding add256_def Let_def
  using wrap_less_iff [of "unat a" "2 ^ 256" "unat b"]
    unsigned_less [of a, where ?'a = nat] unsigned_less [of b, where ?'a = nat]
  by (auto simp: word_less_nat_alt unat_word_ariths)

lemma unat_succ: "unat (a :: u64) + 1 < 2 ^ 64 \<Longrightarrow> unat (a + 1) = unat a + 1"
  by (simp add: unat_word_ariths)

subsection \<open>The pointers of the address slots\<close>

lemma unat_sellerPtr: "unat (sellerPtr x) = (100 + unat x) mod 65536"
proof -
  have "(2::nat) ^ 16 dvd 2 ^ 64" by (rule le_imp_power_dvd) simp
  then have "(100 + unat x) mod 2 ^ 64 mod 2 ^ 16 = (100 + unat x) mod 2 ^ 16"
    by (rule mod_mod_cancel)
  moreover have "unat (sellerPtr x) = (100 + unat x) mod 2 ^ 64 mod 2 ^ 16"
    by (simp add: sellerPtr_def ptr_defs unsigned_ucast_eq take_bit_eq_mod unat_word_ariths)
  ultimately show ?thesis
    by simp
qed

lemma unat_buyerPtr: "unat (buyerPtr x) = (10000 + unat x) mod 65536"
proof -
  have "(2::nat) ^ 16 dvd 2 ^ 64" by (rule le_imp_power_dvd) simp
  then have "(10000 + unat x) mod 2 ^ 64 mod 2 ^ 16 = (10000 + unat x) mod 2 ^ 16"
    by (rule mod_mod_cancel)
  moreover have "unat (buyerPtr x) = (10000 + unat x) mod 2 ^ 64 mod 2 ^ 16"
    by (simp add: buyerPtr_def ptr_defs unsigned_ucast_eq take_bit_eq_mod unat_word_ariths)
  ultimately show ?thesis
    by simp
qed

lemma mod_shift_neq:
  fixes a b u n :: nat
  assumes "a < b" "b - a < n"
  shows "(a + u) mod n \<noteq> (b + u) mod n"
proof
  assume "(a + u) mod n = (b + u) mod n"
  then have "n dvd (b + u) - (a + u)"
    using assms(1) by (metis add_le_mono1 less_imp_le mod_eq_dvd_iff_nat)
  then have "n dvd b - a" by simp
  then show False using assms
    by (simp add: dvd_imp_le leD)
qed

lemma ptr_seller_buyer [simp]: "sellerPtr x \<noteq> buyerPtr x" "buyerPtr x \<noteq> sellerPtr x"
  using mod_shift_neq [of 100 10000 65536 "unat x"]
  by (auto simp: unat_sellerPtr unat_buyerPtr word_unat_eq_iff)

lemma ptr_in_range:
  assumes "x \<le> 9900"
  shows "unat (sellerPtr x) = 100 + unat x" "unat (buyerPtr x) = 10000 + unat x"
proof -
  have "unat x \<le> 9900" using assms by (simp add: word_le_nat_alt)
  then show "unat (sellerPtr x) = 100 + unat x" "unat (buyerPtr x) = 10000 + unat x"
    by (simp_all add: unat_sellerPtr unat_buyerPtr)
qed

lemma buyerPtr_inj_range:
  assumes "x \<le> 9900" "y \<le> 9900" "buyerPtr x = buyerPtr y"
  shows "x = y"
  using ptr_in_range(2) [OF assms(1)] ptr_in_range(2) [OF assms(2)] assms(3)
  by (simp add: word_unat_eq_iff)

lemma sellerPtr_inj_range:
  assumes "x \<le> 9900" "y \<le> 9900" "sellerPtr x = sellerPtr y"
  shows "x = y"
  using ptr_in_range(1) [OF assms(1)] ptr_in_range(1) [OF assms(2)] assms(3)
  by (simp add: word_unat_eq_iff)

lemma seller_buyer_range:
  assumes "1 \<le> x" "x \<le> 9900" "y \<le> 9900"
  shows "buyerPtr x \<noteq> sellerPtr y"
proof
  assume "buyerPtr x = sellerPtr y"
  then have "10000 + unat x = 100 + unat y"
    using ptr_in_range(2) [OF assms(2)] ptr_in_range(1) [OF assms(3)] by simp
  moreover have "1 \<le> unat x" "unat y \<le> 9900"
    using assms by (simp_all add: word_le_nat_alt)
  ultimately show False by simp
qed

lemma resolve_inj:
  assumes "1 \<le> i" "i \<le> 9899" "1 \<le> j" "j \<le> 9899" "resolve f i = resolve g j"
  shows "f = g \<and> i = j"
proof -
  have r: "i \<le> 9900" "j \<le> 9900"
    using assms(2,4) by (simp_all add: word_le_nat_alt)
  show ?thesis
    using assms(5) sellerPtr_inj_range [OF r] buyerPtr_inj_range [OF r]
      seller_buyer_range [OF assms(1) r] seller_buyer_range [OF assms(3) r(2) r(1)]
    by (cases f; cases g) auto
qed

lemma narrow_not_wide:
  assumes "1 \<le> i" "i \<le> 9899"
  shows "sellerPtr i \<notin> set [PTR_ORDER_COUNT, PTR_PRICE, PTR_LOCKED, PTR_STATE, PTR_DEADLINE, PTR_ACCEPTED_AT]"
    and "buyerPtr i \<notin> set [PTR_ORDER_COUNT, PTR_PRICE, PTR_LOCKED, PTR_STATE, PTR_DEADLINE, PTR_ACCEPTED_AT]"
proof -
  have r: "i \<le> 9900" using assms(2) by (simp add: word_le_nat_alt)
  have "14 < unat (sellerPtr i)" "14 < unat (buyerPtr i)"
    using ptr_in_range [OF r] by simp_all
  then have "\<And>p :: u16. unat p \<le> 14 \<Longrightarrow> sellerPtr i \<noteq> p \<and> buyerPtr i \<noteq> p"
    by auto
  then show "sellerPtr i \<notin> set [PTR_ORDER_COUNT, PTR_PRICE, PTR_LOCKED, PTR_STATE, PTR_DEADLINE, PTR_ACCEPTED_AT]"
    and "buyerPtr i \<notin> set [PTR_ORDER_COUNT, PTR_PRICE, PTR_LOCKED, PTR_STATE, PTR_DEADLINE, PTR_ACCEPTED_AT]"
    by (simp_all add: ptr_defs)
qed

subsection \<open>When a method returns, and the store it leaves\<close>

lemma createOrder_Inr:
  "createOrder e price deadlineBlocks s = Inr (orderId, s') \<longleftrightarrow>
     0 < price \<and> 6 \<le> deadlineBlocks \<and> unat (orderCount s) + 1 < 2 ^ 64
     \<and> orderId = orderCount s + 1
     \<and> unat (blockNumber e) + unat deadlineBlocks < 2 ^ 64
     \<and> s' = storeU256 (storeU256 (storeU256 (storeU256 (storeU256 (storeAddress
            (storeU256 s PTR_ORDER_COUNT (replicate 32 0) (fromU64 orderId))
            (sellerPtr orderId) (sender e))
            PTR_PRICE (subPtr orderId) price)
            PTR_LOCKED (subPtr orderId) 0)
            PTR_STATE (subPtr orderId) (fromU64 STATE_CREATED))
            PTR_DEADLINE (subPtr orderId) (fromU64 (blockNumber e + deadlineBlocks)))
            PTR_ACCEPTED_AT (subPtr orderId) 0"
  unfolding createOrder_def Let_def orderCount_def
  by (auto simp: add64_Inr add64_Inl split: sum.splits)

lemma acceptOrder_Inr:
  "acceptOrder e orderId s = Inr (ok, s') \<longleftrightarrow>
     stateOf s orderId = STATE_CREATED \<and> blockNumber e \<le> deadlineOf s orderId \<and> ok
     \<and> s' = storeU256 (storeU256 (storeAddress s (buyerPtr orderId) (sender e))
            PTR_STATE (subPtr orderId) (fromU64 STATE_ACCEPTED))
            PTR_ACCEPTED_AT (subPtr orderId) (fromU64 (blockNumber e))"
  unfolding acceptOrder_def Let_def stateOf_def deadlineOf_def
  by auto

lemma fundOrder_Inr:
  "fundOrder e orderId s = Inr (ok, s') \<longleftrightarrow>
     stateOf s orderId = STATE_ACCEPTED \<and> buyerOf s orderId = sender e \<and> ok
     \<and> s' = storeU256 (storeU256 s PTR_LOCKED (subPtr orderId) (priceOf s orderId))
            PTR_STATE (subPtr orderId) (fromU64 STATE_FUNDED)"
  unfolding fundOrder_def Let_def stateOf_def buyerOf_def priceOf_def
  by auto

lemma confirmCompletion_Inr:
  "confirmCompletion e orderId s = Inr (ok, s') \<longleftrightarrow>
     stateOf s orderId = STATE_FUNDED \<and> buyerOf s orderId = sender e \<and> ok
     \<and> s' = storeU256 (storeU256 s PTR_LOCKED (subPtr orderId) 0)
            PTR_STATE (subPtr orderId) (fromU64 STATE_COMPLETED)"
  unfolding confirmCompletion_def Let_def stateOf_def buyerOf_def
  by auto

lemma cancelOrder_Inr:
  "cancelOrder e orderId s = Inr (ok, s') \<longleftrightarrow>
     (stateOf s orderId = STATE_CREATED \<or> stateOf s orderId = STATE_ACCEPTED \<or>
      stateOf s orderId = STATE_FUNDED \<or> stateOf s orderId = STATE_DISPUTED)
     \<and> (sellerOf s orderId = sender e \<or> buyerOf s orderId = sender e) \<and> ok
     \<and> s' = storeU256 (storeU256 s PTR_LOCKED (subPtr orderId) 0)
            PTR_STATE (subPtr orderId) (fromU64 STATE_CANCELLED)"
  unfolding cancelOrder_def Let_def stateOf_def buyerOf_def sellerOf_def
  by auto

lemma openDispute_Inr:
  "openDispute e orderId s = Inr (ok, s') \<longleftrightarrow>
     stateOf s orderId = STATE_FUNDED
     \<and> (sellerOf s orderId = sender e \<or> buyerOf s orderId = sender e) \<and> ok
     \<and> s' = storeU256 s PTR_STATE (subPtr orderId) (fromU64 STATE_DISPUTED)"
  unfolding openDispute_def Let_def stateOf_def buyerOf_def sellerOf_def
  by auto

lemmas op_Inr = createOrder_Inr acceptOrder_Inr fundOrder_Inr confirmCompletion_Inr
  cancelOrder_Inr openDispute_Inr

lemma u8_of_state [simp]:
  "(ucast STATE_CREATED :: u8) = 1" "(ucast STATE_ACCEPTED :: u8) = 2"
  "(ucast STATE_FUNDED :: u8) = 3" "(ucast STATE_COMPLETED :: u8) = 4"
  "(ucast STATE_CANCELLED :: u8) = 5" "(ucast STATE_DISPUTED :: u8) = 6"
  by (simp_all add: state_defs)

lemma invoke_cases:
  obtains (abort) err where "invoke e c s = (Inl err, s)"
  | (create) price deadlineBlocks orderId s' where "c = CreateOrder price deadlineBlocks"
      "createOrder e price deadlineBlocks s = Inr (orderId, s')"
      "invoke e c s = (Inr (RetOrderId orderId), s')"
  | (accept) orderId s' where "c = AcceptOrder orderId"
      "acceptOrder e orderId s = Inr (True, s')" "invoke e c s = (Inr (RetOk True), s')"
  | (fund) orderId s' where "c = FundOrder orderId"
      "fundOrder e orderId s = Inr (True, s')" "invoke e c s = (Inr (RetOk True), s')"
  | (confirm) orderId s' where "c = ConfirmCompletion orderId"
      "confirmCompletion e orderId s = Inr (True, s')" "invoke e c s = (Inr (RetOk True), s')"
  | (cancel) orderId s' where "c = CancelOrder orderId"
      "cancelOrder e orderId s = Inr (True, s')" "invoke e c s = (Inr (RetOk True), s')"
  | (dispute) orderId s' where "c = OpenDispute orderId"
      "openDispute e orderId s = Inr (True, s')" "invoke e c s = (Inr (RetOk True), s')"
proof (cases "body e c s")
  case (Inl a)
  then show ?thesis using abort by (cases a) (simp add: invoke_def)
next
  case (Inr b)
  obtain r s' where b: "b = (r, s')" by (cases b)
  show ?thesis
  proof (cases c)
    case (CreateOrder p d)
    with Inr b show ?thesis using create [of p d]
      by (auto simp: invoke_def retId_def map_sum_def split: sum.splits)
  next
    case (AcceptOrder i)
    with Inr b show ?thesis using accept [of i]
      by (auto simp: invoke_def retOk_def map_sum_def acceptOrder_Inr split: sum.splits)
  next
    case (FundOrder i)
    with Inr b show ?thesis using fund [of i]
      by (auto simp: invoke_def retOk_def map_sum_def fundOrder_Inr split: sum.splits)
  next
    case (ConfirmCompletion i)
    with Inr b show ?thesis using confirm [of i]
      by (auto simp: invoke_def retOk_def map_sum_def confirmCompletion_Inr split: sum.splits)
  next
    case (CancelOrder i)
    with Inr b show ?thesis using cancel [of i]
      by (auto simp: invoke_def retOk_def map_sum_def cancelOrder_Inr split: sum.splits)
  next
    case (OpenDispute i)
    with Inr b show ?thesis using dispute [of i]
      by (auto simp: invoke_def retOk_def map_sum_def openDispute_Inr split: sum.splits)
  qed
qed

lemma invoke_create:
  assumes "0 < price" "6 \<le> deadlineBlocks" "unat (orderCount s) + 1 < 2 ^ 64"
    "unat (blockNumber e) + unat deadlineBlocks < 2 ^ 64"
  shows "orderCount (snd (invoke e (CreateOrder price deadlineBlocks) s)) = orderCount s + 1"
    and "stateOf (snd (invoke e (CreateOrder price deadlineBlocks) s)) j =
      (if j = orderCount s + 1 then STATE_CREATED else stateOf s j)"
proof -
  obtain s' where c: "createOrder e price deadlineBlocks s = Inr (orderCount s + 1, s')"
    using assms by (simp add: createOrder_Inr)
  have "snd (invoke e (CreateOrder price deadlineBlocks) s) = s'"
    by (simp add: invoke_def retId_def c)
  moreover have "orderCount s' = orderCount s + 1"
    and "stateOf s' j = (if j = orderCount s + 1 then STATE_CREATED else stateOf s j)"
    using c by (auto simp: createOrder_Inr field_defs)
  ultimately show "orderCount (snd (invoke e (CreateOrder price deadlineBlocks) s)) = orderCount s + 1"
    and "stateOf (snd (invoke e (CreateOrder price deadlineBlocks) s)) j =
      (if j = orderCount s + 1 then STATE_CREATED else stateOf s j)"
    by simp_all
qed

lemma invoke_create_seller:
  assumes "0 < price" "6 \<le> deadlineBlocks" "unat (orderCount s) + 1 < 2 ^ 64"
    "unat (blockNumber e) + unat deadlineBlocks < 2 ^ 64"
  shows "loadAddress (snd (invoke e (CreateOrder price deadlineBlocks) s))
      (sellerPtr (orderCount s + 1)) = sender e"
proof -
  obtain s' where c: "createOrder e price deadlineBlocks s = Inr (orderCount s + 1, s')"
    using assms by (simp add: createOrder_Inr)
  have "snd (invoke e (CreateOrder price deadlineBlocks) s) = s'"
    by (simp add: invoke_def retId_def c)
  moreover have "loadAddress s' (sellerPtr (orderCount s + 1)) = sender e"
    using c by (auto simp: createOrder_Inr)
  ultimately show ?thesis by simp
qed

subsection \<open>Histories\<close>

lemma run_append: "run (tr @ tr') s = run tr' (run tr s)"
  by (induction tr arbitrary: s) auto

lemma run_preserves:
  assumes step: "\<And>e c s. P s \<Longrightarrow> P (snd (invoke e c s))"
    and init: "P s"
  shows "P (run tr s)"
  using init
proof (induction tr arbitrary: s)
  case Nil
  then show ?case by simp
next
  case (Cons a tr)
  obtain e c where a: "a = (e, c)" by (cases a)
  from Cons.prems have "P (snd (invoke e c s))" by (rule step)
  then show ?case unfolding a by (simp add: Cons.IH)
qed

subsection \<open>Preservation of the invariants\<close>

lemma exists_inv_step: "exists_inv s \<Longrightarrow> exists_inv (snd (invoke e c s))"
  by (cases e c s rule: invoke_cases)
    (auto simp: exists_inv_def op_Inr field_defs state_defs word_le_nat_alt word_less_nat_alt unat_word_ariths)

lemma locked_inv_step: "locked_inv s \<Longrightarrow> locked_inv (snd (invoke e c s))"
  by (cases e c s rule: invoke_cases)
    (auto simp: locked_inv_def op_Inr field_defs state_defs)

lemma exists_inv_deployed: "exists_inv deployed"
  by (simp add: exists_inv_def field_defs)

lemma locked_inv_deployed: "locked_inv deployed"
  by (simp add: locked_inv_def field_defs)

lemma exists_inv_run: "exists_inv s \<Longrightarrow> exists_inv (run tr s)"
  by (rule run_preserves [where P = exists_inv]) (auto intro: exists_inv_step)

lemma locked_inv_run: "locked_inv s \<Longrightarrow> locked_inv (run tr s)"
  by (rule run_preserves [where P = locked_inv]) (auto intro: locked_inv_step)

lemma exists_inv_fresh:
  assumes "exists_inv s" "unat (orderCount s) + 1 < 2 ^ 64"
  shows "stateOf s (orderCount s + 1) = 0"
proof (rule ccontr)
  assume "stateOf s (orderCount s + 1) \<noteq> 0"
  then have "orderCount s + 1 \<le> orderCount s"
    using assms(1) by (simp add: exists_inv_def)
  then show False
    using unat_succ [OF assms(2)] by (simp add: word_le_nat_alt)
qed

lemma terminal_step:
  assumes "exists_inv s" "stateOf s orderId = STATE_COMPLETED \<or> stateOf s orderId = STATE_CANCELLED"
  shows "stateOf (snd (invoke e c s)) orderId = stateOf s orderId"
proof (cases e c s rule: invoke_cases)
  case (create price deadlineBlocks i s')
  then have "unat (orderCount s) + 1 < 2 ^ 64" "i = orderCount s + 1"
    by (simp_all add: createOrder_Inr)
  with exists_inv_fresh [OF assms(1)] assms(2) have "i \<noteq> orderId"
    by (auto simp: state_defs)
  then show ?thesis using create by (simp add: createOrder_Inr stateOf_def)
qed (use assms(2) in \<open>auto simp: op_Inr stateOf_def state_defs\<close>)

lemma terminal_run:
  assumes "exists_inv s" "stateOf s orderId = STATE_COMPLETED \<or> stateOf s orderId = STATE_CANCELLED"
  shows "stateOf (run tr s) orderId = stateOf s orderId"
proof -
  let ?P = "\<lambda>s'. exists_inv s' \<and> stateOf s' orderId = stateOf s orderId"
  have "?P (run tr s)"
  proof (rule run_preserves [where P = ?P])
    fix e c s' assume "?P s'"
    then show "?P (snd (invoke e c s'))"
      using terminal_step [of s' orderId e c] exists_inv_step [of s' e c] assms(2) by auto
  qed (use assms in simp)
  then show ?thesis by simp
qed

lemma targets_fail:
  assumes "stateOf s orderId \<noteq> STATE_CREATED" "stateOf s orderId \<noteq> STATE_ACCEPTED"
    "stateOf s orderId \<noteq> STATE_FUNDED" "stateOf s orderId \<noteq> STATE_DISPUTED"
    "c \<in> targets orderId"
  shows "isl (fst (invoke e c s)) \<and> snd (invoke e c s) = s"
  using assms
  by (cases e c s rule: invoke_cases) (auto simp: op_Inr targets_def)

lemma nonexistent_zero:
  assumes "exists_inv s" "orderId = 0 \<or> orderCount s < orderId"
  shows "stateOf s orderId = 0"
proof (rule ccontr)
  assume "stateOf s orderId \<noteq> 0"
  then have "1 \<le> orderId \<and> orderId \<le> orderCount s"
    using assms(1) by (simp add: exists_inv_def)
  then show False using assms(2) by (auto simp: word_le_nat_alt word_less_nat_alt)
qed

lemma nonexistent_step:
  assumes "stateOf s orderId = 0" "\<forall>p d. c \<noteq> CreateOrder p d"
  shows "stateOf (snd (invoke e c s)) orderId = 0"
  using assms
  by (cases e c s rule: invoke_cases) (auto simp: op_Inr stateOf_def state_defs)

lemma untouched_wide:
  assumes "stateOf s orderId = 0" "\<forall>p d. c \<noteq> CreateOrder p d"
  shows "loadU256 (snd (invoke e c s)) p (subPtr orderId) = loadU256 s p (subPtr orderId)"
  using assms
  by (cases e c s rule: invoke_cases) (auto simp: op_Inr stateOf_def state_defs)

lemma untouched_narrow:
  assumes "exists_inv s" "stateOf s orderId = 0" "\<forall>p d. c \<noteq> CreateOrder p d"
    and "orderId \<le> 9900" "orderCount s \<le> 9900"
  shows "loadAddress (snd (invoke e c s)) (sellerPtr orderId) = loadAddress s (sellerPtr orderId)
    \<and> loadAddress (snd (invoke e c s)) (buyerPtr orderId) = loadAddress s (buyerPtr orderId)"
proof (cases e c s rule: invoke_cases)
  case (accept j s')
  then have pre: "stateOf s j = STATE_CREATED"
    and ld: "\<And>q. loadAddress s' q = (if q = buyerPtr j then sender e else loadAddress s q)"
    by (auto simp: acceptOrder_Inr)
  have j: "1 \<le> j" "j \<le> orderCount s"
    using assms(1) pre unfolding exists_inv_def by (auto simp: state_defs)
  then have j9: "j \<le> 9900" using assms(5) by simp
  have ne: "j \<noteq> orderId" using pre assms(2) by (auto simp: state_defs)
  have "buyerPtr j \<noteq> sellerPtr orderId"
    using seller_buyer_range [OF j(1) j9 assms(4)] .
  moreover have "buyerPtr orderId \<noteq> buyerPtr j"
    using buyerPtr_inj_range [OF assms(4) j9] ne by blast
  ultimately show ?thesis unfolding accept(3) snd_conv ld by auto
qed (use assms(3) in \<open>auto simp: op_Inr\<close>)

lemma states_inv_step:
  assumes inv: "states_inv s"
  shows "states_inv (snd (invoke e c s))"
proof (cases e c s rule: invoke_cases)
  case (create price deadlineBlocks i s')
  from create have i: "i = orderCount s + 1" "unat (orderCount s) + 1 < 2 ^ 64"
    and st: "\<And>oid. stateOf s' oid = (if oid = i then STATE_CREATED else stateOf s oid)"
    and cnt: "orderCount s' = i"
    by (auto simp: createOrder_Inr field_defs)
  have "\<And>oid. oid \<le> i \<Longrightarrow> oid \<noteq> i \<Longrightarrow> oid \<le> orderCount s"
    using unat_succ [OF i(2)] unfolding i(1) by (auto simp: word_le_nat_alt word_unat_eq_iff)
  then show ?thesis using inv unfolding create(3) states_inv_def
    by (auto simp: st cnt)
qed (use inv in \<open>auto simp: states_inv_def op_Inr field_defs\<close>)

lemma buyer_inv_step:
  assumes "buyer_inv s" "exists_inv s" "sender e \<noteq> zero_address"
  shows "buyer_inv (snd (invoke e c s))"
proof (cases e c s rule: invoke_cases)
  case (abort err)
  then show ?thesis using assms(1) by simp
next
  case (create price deadlineBlocks i s')
  from create have i: "i = orderCount s + 1" "unat (orderCount s) + 1 < 2 ^ 64"
    and st: "\<And>oid. stateOf s' oid = (if oid = i then STATE_CREATED else stateOf s oid)"
    and bu: "\<And>oid. buyerOf s' oid = (if buyerPtr oid = sellerPtr i then sender e else buyerOf s oid)"
    and cnt: "orderCount s' = i"
    by (auto simp: createOrder_Inr field_defs)
  have lt: "orderCount s < i"
    using unat_succ [OF i(2)] unfolding i(1) by (simp add: word_less_nat_alt)
  show ?thesis unfolding create(3) snd_conv buyer_inv_def cnt
  proof (intro impI allI)
    fix oid :: u64 assume le: "i \<le> 9900" and r: "1 \<le> oid \<and> oid \<le> 9900"
    have old: "orderCount s \<le> 9900" using lt le by simp
    have b: "buyerOf s' oid = buyerOf s oid"
      using seller_buyer_range [of oid i] r le by (simp add: bu)
    have fresh: "buyerOf s i = zero_address"
      using assms(1) old lt le unfolding buyer_inv_def
      by (metis i(1) unat_succ [OF i(2)] Suc_eq_plus1 le_add2 word_le_nat_alt unat_1)
    show "(i < oid \<longrightarrow> buyerOf s' oid = zero_address)
      \<and> (stateOf s' oid = STATE_CREATED \<longrightarrow> buyerOf s' oid = zero_address)
      \<and> (stateOf s' oid \<in> {STATE_ACCEPTED, STATE_FUNDED, STATE_COMPLETED, STATE_DISPUTED}
            \<longrightarrow> buyerOf s' oid \<noteq> zero_address)"
      using assms(1) old r lt fresh unfolding buyer_inv_def b st
      by (auto simp: state_defs)
  qed
next
  case (accept i s')
  from accept have pre: "stateOf s i = STATE_CREATED"
    and st: "\<And>oid. stateOf s' oid = (if oid = i then STATE_ACCEPTED else stateOf s oid)"
    and bu: "\<And>oid. buyerOf s' oid = (if buyerPtr oid = buyerPtr i then sender e else buyerOf s oid)"
    and cnt: "orderCount s' = orderCount s"
    by (auto simp: acceptOrder_Inr field_defs)
  have ex: "1 \<le> i" "i \<le> orderCount s"
    using assms(2) pre unfolding exists_inv_def by (auto simp: state_defs)
  show ?thesis unfolding accept(3) snd_conv buyer_inv_def cnt
  proof (intro impI allI)
    fix oid :: u64 assume le: "orderCount s \<le> 9900" and r: "1 \<le> oid \<and> oid \<le> 9900"
    have i9: "i \<le> 9900" using ex le by simp
    have b: "buyerOf s' oid = (if oid = i then sender e else buyerOf s oid)"
      using buyerPtr_inj_range [of oid i] r i9 by (auto simp: bu)
    show "(orderCount s < oid \<longrightarrow> buyerOf s' oid = zero_address)
      \<and> (stateOf s' oid = STATE_CREATED \<longrightarrow> buyerOf s' oid = zero_address)
      \<and> (stateOf s' oid \<in> {STATE_ACCEPTED, STATE_FUNDED, STATE_COMPLETED, STATE_DISPUTED}
            \<longrightarrow> buyerOf s' oid \<noteq> zero_address)"
      using assms(1,3) le r ex unfolding buyer_inv_def b st
      by (auto simp: state_defs)
  qed
next
  case (fund i s')
  then show ?thesis using assms(1)
    by (auto simp: buyer_inv_def fundOrder_Inr field_defs state_defs)
next
  case (confirm i s')
  then show ?thesis using assms(1)
    by (auto simp: buyer_inv_def confirmCompletion_Inr field_defs state_defs)
next
  case (cancel i s')
  then show ?thesis using assms(1)
    by (auto simp: buyer_inv_def cancelOrder_Inr field_defs state_defs)
next
  case (dispute i s')
  then show ?thesis using assms(1)
    by (auto simp: buyer_inv_def openDispute_Inr field_defs state_defs)
qed

lemma states_inv_deployed: "states_inv deployed"
  by (auto simp: states_inv_def word_le_nat_alt)

lemma buyer_inv_deployed: "buyer_inv deployed"
  by (simp add: buyer_inv_def field_defs zero_address_def state_defs)

lemma invs_run:
  assumes "\<forall>ec \<in> set tr. sender (fst ec) \<noteq> zero_address"
    and "exists_inv s" "states_inv s" "buyer_inv s"
  shows "exists_inv (run tr s) \<and> states_inv (run tr s) \<and> buyer_inv (run tr s)"
  using assms
proof (induction tr arbitrary: s)
  case Nil
  then show ?case by simp
next
  case (Cons a tr)
  obtain e c where a: "a = (e, c)" by (cases a)
  have nz: "sender e \<noteq> zero_address" using Cons.prems(1) by (simp add: a)
  have "exists_inv (snd (invoke e c s))" "states_inv (snd (invoke e c s))"
    "buyer_inv (snd (invoke e c s))"
    using Cons.prems nz by (auto intro: exists_inv_step states_inv_step buyer_inv_step)
  then show ?case using Cons.IH [of "snd (invoke e c s)"] Cons.prems(1) by (simp add: a)
qed

subsection \<open>Created ids\<close>

lemma created_step:
  "(case fst (invoke e c s) of Inr (RetOrderId i) \<Rightarrow> [i] | _ \<Rightarrow> []) = ids \<Longrightarrow>
     (ids = [] \<and> orderCount (snd (invoke e c s)) = orderCount s)
     \<or> (ids = [orderCount s + 1] \<and> unat (orderCount s) + 1 < 2 ^ 64
         \<and> orderCount (snd (invoke e c s)) = orderCount s + 1)"
  by (cases e c s rule: invoke_cases) (auto simp: op_Inr orderCount_def)

lemma createdIds_run:
  "createdIds tr s =
     map of_nat [Suc (unat (orderCount s)) ..< Suc (unat (orderCount s)) + length (createdIds tr s)]
   \<and> unat (orderCount (run tr s)) = unat (orderCount s) + length (createdIds tr s)"
proof (induction tr arbitrary: s)
  case Nil
  then show ?case by simp
next
  case (Cons a tr)
  obtain e c where a: "a = (e, c)" by (cases a)
  define ids where "ids = (case fst (invoke e c s) of Inr (RetOrderId i) \<Rightarrow> [i] | _ \<Rightarrow> [])"
  define s' where "s' = snd (invoke e c s)"
  define n where "n = length (createdIds tr s')"
  have unfold: "createdIds (a # tr) s = ids @ createdIds tr s'" "run (a # tr) s = run tr s'"
    by (simp_all add: a ids_def s'_def)
  note IH = Cons.IH [of s', folded n_def]
  from created_step [OF ids_def [symmetric]]
  consider (none) "ids = []" "orderCount s' = orderCount s"
    | (one) "ids = [orderCount s + 1]" "unat (orderCount s) + 1 < 2 ^ 64"
        "orderCount s' = orderCount s + 1"
    unfolding s'_def by blast
  then show ?case
  proof cases
    case none
    have len: "length (createdIds (a # tr) s) = n"
      unfolding unfold by (simp add: none(1) n_def)
    have "createdIds (a # tr) s = createdIds tr s'"
      unfolding unfold by (simp add: none(1))
    then show ?thesis using IH unfolding len unfold(2) none(2) by simp
  next
    case one
    define u where "u = unat (orderCount s)"
    have u': "unat (orderCount s') = Suc u"
      using one unat_succ [of "orderCount s"] by (simp add: u_def)
    have w: "orderCount s + 1 = of_nat (Suc u)"
      by (simp add: u_def)
    have len: "length (createdIds (a # tr) s) = Suc n"
      unfolding unfold by (simp add: one(1) n_def)
    have "createdIds (a # tr) s = of_nat (Suc u) # map of_nat [Suc (Suc u) ..< Suc (Suc u) + n]"
      unfolding unfold using IH by (simp only: one(1) w u' append_Cons append_Nil)
    also have "\<dots> = map of_nat (Suc u # [Suc (Suc u) ..< Suc (Suc u) + n])"
      by (simp only: list.map)
    also have "Suc u # [Suc (Suc u) ..< Suc (Suc u) + n] = [Suc u ..< Suc u + Suc n]"
      by (simp add: upt_conv_Cons)
    finally have ids: "createdIds (a # tr) s = map of_nat [Suc u ..< Suc u + Suc n]" .
    have "unat (orderCount (run (a # tr) s)) = u + Suc n"
      unfolding unfold using IH by (simp add: u')
    with ids show ?thesis unfolding len u_def by blast
  qed
qed

lemma sorted_word_of_nat:
  assumes "n < 2 ^ 64"
  shows "sorted_wrt (<) (map (of_nat :: nat \<Rightarrow> u64) [1 ..< Suc n])"
proof -
  have "sorted_wrt (\<lambda>x y. (of_nat x :: u64) < of_nat y) [1 ..< Suc n]"
  proof (rule sorted_wrt_mono_rel [where P = "(<)"])
    fix x y assume "x \<in> set [1 ..< Suc n]" "y \<in> set [1 ..< Suc n]" "x < y"
    then have "x < 2 ^ 64" "y < 2 ^ 64" using assms by auto
    then have "unat (of_nat x :: u64) = x" "unat (of_nat y :: u64) = y"
      by (simp_all add: unat_of_nat)
    then show "(of_nat x :: u64) < of_nat y"
      using \<open>x < y\<close> by (simp add: word_less_nat_alt)
  qed (rule sorted_wrt_upt)
  then show ?thesis by (simp add: sorted_wrt_map)
qed

lemma createdIds_length: "length (createdIds tr s) \<le> length tr"
proof (induction tr arbitrary: s)
  case Nil
  then show ?case by simp
next
  case (Cons a tr)
  obtain e c where a: "a = (e, c)" by (cases a)
  have "length (case fst (invoke e c s) of Inr (RetOrderId i) \<Rightarrow> [i] | _ \<Rightarrow> []) \<le> 1"
    by (simp split: sum.splits ret.splits)
  then show ?case using Cons.IH [of "snd (invoke e c s)"] by (simp add: a)
qed

lemma counter_le_length: "unat (orderCount (run tr deployed)) \<le> length tr"
  using createdIds_run [of tr deployed] createdIds_length [of tr deployed] by simp

subsection \<open>The loop of getEscrowStats\<close>

lemma statsLoop_exit:
  assumes "n < 2 ^ 64 - 1"
  shows "statsLoop s (of_nat n) (of_nat (Suc n)) acc = Some (Inr acc)"
proof -
  have "unat (of_nat n :: u64) = n" "unat (of_nat (Suc n) :: u64) = Suc n"
    using assms by (simp_all add: unat_of_nat del: of_nat_Suc)
  then have "\<not> (of_nat (Suc n) :: u64) \<le> of_nat n"
    by (simp add: word_le_nat_alt del: of_nat_Suc)
  then show ?thesis
    by (subst statsLoop.simps) (simp del: of_nat_Suc)
qed

lemma statsLoop_total:
  assumes "n < 2 ^ 64 - 1" "j \<le> Suc n"
  shows "statsLoop s (of_nat n) (of_nat j) acc = Some (checkedTotal (unat acc + lockedTotal s j n))"
  using assms(2)
proof (induction "Suc n - j" arbitrary: j acc)
  case 0
  then have j: "j = Suc n" by simp
  show ?case unfolding j
    using statsLoop_exit [OF assms(1)] unsigned_less [of acc, where ?'a = nat]
    by (simp add: lockedTotal_def checkedTotal_def del: of_nat_Suc)
next
  case (Suc d)
  then have jn: "j \<le> n" by simp
  have uj: "unat (of_nat j :: u64) = j" "unat (of_nat n :: u64) = n"
    using assms(1) jn by (simp_all add: unat_of_nat)
  then have le: "(of_nat j :: u64) \<le> of_nat n"
    using jn by (simp add: word_le_nat_alt)
  have nxt: "(of_nat j :: u64) + 1 = of_nat (Suc j)" by simp
  have split: "lockedTotal s j n = fundedLocked s (of_nat j) + lockedTotal s (Suc j) n"
    using jn by (simp add: lockedTotal_def upt_conv_Cons del: of_nat_Suc upt_Suc)
  have IH: "\<And>acc'. statsLoop s (of_nat n) (of_nat (Suc j)) acc'
      = Some (checkedTotal (unat acc' + lockedTotal s (Suc j) n))"
    using Suc.hyps(1) [of "Suc j"] Suc.hyps(2) jn by simp
  show ?case
  proof (cases "stateOf s (of_nat j) = STATE_FUNDED \<or> stateOf s (of_nat j) = STATE_DISPUTED")
    case False
    then have "fundedLocked s (of_nat j) = 0" by (simp add: fundedLocked_def)
    moreover have "statsLoop s (of_nat n) (of_nat j) acc = statsLoop s (of_nat n) (of_nat (Suc j)) acc"
      using False le by (subst statsLoop.simps) (simp add: stateOf_def nxt del: of_nat_Suc)
    ultimately show ?thesis using IH split by simp
  next
    case True
    then have fl: "fundedLocked s (of_nat j) = unat (lockedOf s (of_nat j))"
      by (simp add: fundedLocked_def)
    show ?thesis
    proof (cases "unat acc + unat (lockedOf s (of_nat j)) < 2 ^ 256")
      case ok: True
      then have a: "add256 acc (lockedOf s (of_nat j)) = Inr (acc + lockedOf s (of_nat j))"
        and u: "unat (acc + lockedOf s (of_nat j)) = unat acc + unat (lockedOf s (of_nat j))"
        by (simp_all add: add256_Inr unat_word_ariths)
      have "statsLoop s (of_nat n) (of_nat j) acc
          = statsLoop s (of_nat n) (of_nat (Suc j)) (acc + lockedOf s (of_nat j))"
        using True le a
        by (subst statsLoop.simps) (simp add: stateOf_def lockedOf_def nxt del: of_nat_Suc)
      then show ?thesis using IH split fl u by (simp add: add.assoc)
    next
      case ov: False
      then have a: "add256 acc (lockedOf s (of_nat j)) = Inl AdditionOverflow"
        by (simp add: add256_Inl)
      have "statsLoop s (of_nat n) (of_nat j) acc = Some (Inl AdditionOverflow)"
        using True le a
        by (subst statsLoop.simps) (simp add: stateOf_def lockedOf_def del: of_nat_Suc)
      moreover have "\<not> unat acc + lockedTotal s j n < 2 ^ 256"
        using ov split fl by simp
      ultimately show ?thesis by (simp add: checkedTotal_def)
    qed
  qed
qed

lemma statsLoop_wraps:
  assumes "statsLoop s c i t = Some y"
  shows "\<not> (c = - 1 \<and> no_escrow s)"
proof (rule statsLoop.raw_induct
    [where P = "\<lambda>s c i t y. \<not> (c = - 1 \<and> no_escrow s)", OF _ assms])
  fix loop :: "storage \<Rightarrow> u64 \<Rightarrow> u64 \<Rightarrow> u256 \<Rightarrow> (error + u256) option"
  fix s c i t y
  assume IH: "\<And>s c i t y. loop s c i t = Some y \<Longrightarrow> \<not> (c = - 1 \<and> no_escrow s)"
    and step: "(if i \<le> c
      then let state = toU64 (loadU256 s PTR_STATE (subPtr i))
           in if state = STATE_FUNDED \<or> state = STATE_DISPUTED
              then case add256 t (loadU256 s PTR_LOCKED (subPtr i)) of
                     Inl err \<Rightarrow> Some (Inl err)
                   | Inr t' \<Rightarrow> loop s c (i + 1) t'
              else loop s c (i + 1) t
      else Some (Inr t)) = Some y"
  show "\<not> (c = - 1 \<and> no_escrow s)"
  proof
    assume a: "c = - 1 \<and> no_escrow s"
    then have "stateOf s i \<noteq> STATE_FUNDED" "stateOf s i \<noteq> STATE_DISPUTED"
      by (simp_all add: no_escrow_def)
    then have "loop s c (i + 1) t = Some y"
      using step a by (simp add: stateOf_def)
    then show False using IH a by blast
  qed
qed

subsection \<open>Creations in a row\<close>

lemma many_creates_Suc:
  "many_creates (Suc n) = many_creates n @ [(env_of alice 100, CreateOrder 500 6)]"
  by (simp add: many_creates_def replicate_append_same)

lemma many_creates_run:
  assumes "n < 2 ^ 64"
  shows "orderCount (run (many_creates n) deployed) = of_nat n
    \<and> no_escrow (run (many_creates n) deployed)"
  using assms
proof (induction n)
  case 0
  then show ?case by (simp add: many_creates_def no_escrow_def stateOf_def state_defs)
next
  case (Suc n)
  define s where "s = run (many_creates n) deployed"
  have IH: "orderCount s = of_nat n" "no_escrow s"
    using Suc by (simp_all add: s_def)
  have u: "unat (orderCount s) + 1 < 2 ^ 64"
    using Suc.prems by (simp add: IH(1) unat_of_nat)
  have "many_creates (Suc n) = many_creates n @ [(env_of alice 100, CreateOrder 500 6)]"
    by (simp add: many_creates_def replicate_append_same)
  then have r: "run (many_creates (Suc n)) deployed
      = snd (invoke (env_of alice 100) (CreateOrder 500 6) s)"
    by (simp only: run_append s_def run.simps)
  have g: "(0 :: u256) < 500" "(6 :: u64) \<le> 6"
    "unat (blockNumber (env_of alice 100)) + unat (6 :: u64) < 2 ^ 64"
    by (simp_all add: env_of_def)
  show ?case unfolding r
    using invoke_create [OF g(1) g(2) u g(3)] IH
    by (simp add: no_escrow_def state_defs)
qed

lemma many_creates_first:
  assumes "n < 2 ^ 64" "1 \<le> n"
  shows "stateOf (run (many_creates n) deployed) 1 = STATE_CREATED"
  using assms
proof (induction n)
  case 0
  then show ?case by simp
next
  case (Suc n)
  define s where "s = run (many_creates n) deployed"
  have n: "n < 2 ^ 64" using Suc.prems by simp
  have cnt: "orderCount s = of_nat n"
    using many_creates_run [OF n] by (simp add: s_def)
  have u: "unat (orderCount s) + 1 < 2 ^ 64"
    using Suc.prems by (simp add: cnt unat_of_nat)
  have "many_creates (Suc n) = many_creates n @ [(env_of alice 100, CreateOrder 500 6)]"
    by (simp add: many_creates_def replicate_append_same)
  then have r: "run (many_creates (Suc n)) deployed
      = snd (invoke (env_of alice 100) (CreateOrder 500 6) s)"
    by (simp only: run_append s_def run.simps)
  have g: "(0 :: u256) < 500" "(6 :: u64) \<le> 6"
    "unat (blockNumber (env_of alice 100)) + unat (6 :: u64) < 2 ^ 64"
    by (simp_all add: env_of_def)
  show ?case
  proof (cases "n = 0")
    case True
    then show ?thesis unfolding r
      using invoke_create(2) [OF g(1) g(2) u g(3), of 1] cnt by simp
  next
    case False
    then have "stateOf s 1 = STATE_CREATED"
      using Suc.IH n by (simp add: s_def)
    then show ?thesis unfolding r
      using invoke_create(2) [OF g(1) g(2) u g(3), of 1] by simp
  qed
qed

lemma overlap_at_9901:
  "stateOf (run (many_creates 9901) deployed) 1 = STATE_CREATED
   \<and> buyerOf (run (many_creates 9901) deployed) 1 = alice"
proof -
  define s where "s = run (many_creates 9900) deployed"
  have cnt: "orderCount s = 9900"
    using many_creates_run [of 9900] by (simp add: s_def)
  have u: "unat (orderCount s) + 1 < 2 ^ 64"
    by (simp add: cnt)
  have "Suc 9900 = 9901" by simp
  then have "many_creates 9901 = many_creates 9900 @ [(env_of alice 100, CreateOrder 500 6)]"
    using many_creates_Suc [of 9900] by (simp only:)
  then have r: "run (many_creates 9901) deployed
      = snd (invoke (env_of alice 100) (CreateOrder 500 6) s)"
    by (simp only: run_append s_def run.simps)
  have g: "(0 :: u256) < 500" "(6 :: u64) \<le> 6"
    "unat (blockNumber (env_of alice 100)) + unat (6 :: u64) < 2 ^ 64"
    by (simp_all add: env_of_def)
  have p: "buyerPtr 1 = sellerPtr (orderCount s + 1)"
    by (simp add: cnt buyerPtr_def sellerPtr_def ptr_defs)
  have "buyerOf (run (many_creates 9901) deployed) 1 = alice"
    unfolding r buyerOf_def p
    using invoke_create_seller [OF g(1) g(2) u g(3)] by (simp add: env_of_def)
  moreover have "stateOf (run (many_creates 9901) deployed) 1 = STATE_CREATED"
    by (rule many_creates_first) simp_all
  ultimately show ?thesis by simp
qed

subsection \<open>The sample histories\<close>

lemmas sample_defs = alice_def bob_def env_of_def t_create_def t_accept_def t_fund_def t_cancel_def
  t_complete_def t_dispute_def t_market_def

lemmas exec_defs = invoke_def retId_def retOk_def op_defs Let_def add64_def field_defs state_defs
  zero_address_def

lemma sample_steps:
  "createOrder (env_of alice 100) 500 6 deployed = Inr (1, run t_create deployed)"
  "acceptOrder (env_of bob 101) 1 (run t_create deployed) = Inr (True, run t_accept deployed)"
  "fundOrder (env_of bob 102) 1 (run t_accept deployed) = Inr (True, run t_fund deployed)"
  "confirmCompletion (env_of bob 103) 1 (run t_fund deployed) = Inr (True, run t_complete deployed)"
  "cancelOrder (env_of alice 101) 1 (run t_create deployed) = Inr (True, run t_cancel deployed)"
  "openDispute (env_of alice 103) 1 (run t_fund deployed) = Inr (True, run t_dispute deployed)"
  by (simp_all add: sample_defs exec_defs)

lemma sample_fields:
  "stateOf (run t_create deployed) 1 = STATE_CREATED"
  "stateOf (run t_accept deployed) 1 = STATE_ACCEPTED"
  "stateOf (run t_fund deployed) 1 = STATE_FUNDED"
  "stateOf (run t_complete deployed) 1 = STATE_COMPLETED"
  "stateOf (run t_cancel deployed) 1 = STATE_CANCELLED"
  "stateOf (run t_dispute deployed) 1 = STATE_DISPUTED"
  "lockedOf (run t_fund deployed) 1 = 500"
  "priceOf (run t_fund deployed) 1 = 500"
  "deadlineOf (run t_create deployed) 1 = 106"
  "orderCount (run t_create deployed) = 1"
  "orderCount (run t_complete deployed) = 1"
  by (simp_all add: sample_defs exec_defs)

section \<open>The claims\<close>

subsection \<open>C1: the locked amount\<close>

text \<open>
  Claim C1. In every store reached from deployment by any history of calls, the locked
  amount of an order is nonzero only when the order is Funded or Disputed, and then it
  equals the price (\<open>locked_inv\<close>). Every call keeps this. \<open>createOrder\<close> leaves the
  new order with locked 0, \<open>fundOrder\<close> leaves the order Funded with locked equal to
  the price, \<open>confirmCompletion\<close> and \<open>cancelOrder\<close> leave locked 0, and
  \<open>openDispute\<close> leaves locked as it was.
\<close>

theorem locked_invariant:
  "locked_inv (run tr deployed)
   \<and> (locked_inv s \<longrightarrow> locked_inv (snd (invoke e c s)))
   \<and> (createOrder e price deadlineBlocks s = Inr (orderId, s') \<longrightarrow> lockedOf s' orderId = 0)
   \<and> (fundOrder e orderId s = Inr (ok, s') \<longrightarrow>
        stateOf s' orderId = STATE_FUNDED \<and> lockedOf s' orderId = priceOf s' orderId)
   \<and> (confirmCompletion e orderId s = Inr (ok, s') \<longrightarrow> lockedOf s' orderId = 0)
   \<and> (cancelOrder e orderId s = Inr (ok, s') \<longrightarrow> lockedOf s' orderId = 0)
   \<and> (openDispute e orderId s = Inr (ok, s') \<longrightarrow> lockedOf s' orderId = lockedOf s orderId)"
  using locked_inv_run [OF locked_inv_deployed, of tr] locked_inv_step [of s e c]
  by (simp add: op_Inr field_defs)

text \<open>
  The order of \<open>t_fund\<close> has a nonzero locked amount, is Funded and its locked amount
  is its price; the five methods are run on the sample order.
\<close>

theorem locked_invariant_witness:
  "lockedOf (run t_fund deployed) 1 \<noteq> 0
   \<and> stateOf (run t_fund deployed) 1 = STATE_FUNDED
   \<and> lockedOf (run t_fund deployed) 1 = priceOf (run t_fund deployed) 1
   \<and> locked_inv (snd (invoke (env_of alice 100) (CreateOrder 500 6) deployed))
   \<and> lockedOf (run t_create deployed) 1 = 0
   \<and> lockedOf (run t_complete deployed) 1 = 0
   \<and> lockedOf (run t_cancel deployed) 1 = 0
   \<and> lockedOf (run t_dispute deployed) 1 = lockedOf (run t_fund deployed) 1"
proof -
  have nz: "lockedOf (run t_fund deployed) 1 \<noteq> 0"
    by (simp add: sample_fields)
  have a: "locked_inv (run t_fund deployed)"
    using locked_invariant [of t_fund] by blast
  have b: "locked_inv (snd (invoke (env_of alice 100) (CreateOrder 500 6) deployed))"
    using locked_invariant [of "[]" deployed "env_of alice 100" "CreateOrder 500 6"]
      locked_inv_deployed by blast
  have c: "lockedOf (run t_create deployed) 1 = 0"
    using locked_invariant [of "[]" deployed "env_of alice 100" _ 500 6 1 "run t_create deployed"]
      sample_steps(1) by blast
  have d: "stateOf (run t_fund deployed) 1 = STATE_FUNDED
      \<and> lockedOf (run t_fund deployed) 1 = priceOf (run t_fund deployed) 1"
    using locked_invariant [of "[]" "run t_accept deployed" "env_of bob 102" _ _ _ 1
        "run t_fund deployed" True]
      sample_steps(3) by blast
  have e: "lockedOf (run t_complete deployed) 1 = 0"
    using locked_invariant [of "[]" "run t_fund deployed" "env_of bob 103" _ _ _ 1
        "run t_complete deployed" True]
      sample_steps(4) by blast
  have f: "lockedOf (run t_cancel deployed) 1 = 0"
    using locked_invariant [of "[]" "run t_create deployed" "env_of alice 101" _ _ _ 1
        "run t_cancel deployed" True]
      sample_steps(5) by blast
  have g: "lockedOf (run t_dispute deployed) 1 = lockedOf (run t_fund deployed) 1"
    using locked_invariant [of "[]" "run t_fund deployed" "env_of alice 103" _ _ _ 1
        "run t_dispute deployed" True]
      sample_steps(6) by blast
  from a nz have "(stateOf (run t_fund deployed) 1 = STATE_FUNDED
      \<or> stateOf (run t_fund deployed) 1 = STATE_DISPUTED)
      \<and> lockedOf (run t_fund deployed) 1 = priceOf (run t_fund deployed) 1"
    unfolding locked_inv_def by blast
  with nz b c d e f g show ?thesis by blast
qed

subsection \<open>C2: getEscrowStats\<close>

text \<open>
  Claim C2. \<open>getEscrowStats\<close> takes the store and returns no store. It returns the
  checked 256-bit sum of the locked amounts of the Funded and Disputed orders with ids 1 to
  the order counter, twice, and the counter; when that sum does not fit 256 bits the checked
  addition aborts. This holds for every store whose counter is below \<open>2^64 - 1\<close>, and every
  history of fewer than \<open>2^64 - 1\<close> calls from deployment leads to such a store.
\<close>

theorem escrow_stats:
  "(orderCount s < 18446744073709551615 \<longrightarrow>
      getEscrowStats s =
        Some (case checkedTotal (lockedTotal s 1 (unat (orderCount s))) of
                Inl err \<Rightarrow> Inl err
              | Inr t \<Rightarrow> Inr (t, t, orderCount s)))
   \<and> (length tr < 18446744073709551615 \<longrightarrow>
        orderCount (run tr deployed) < 18446744073709551615)"
proof -
  have a: "getEscrowStats s =
        Some (case checkedTotal (lockedTotal s 1 (unat (orderCount s))) of
                Inl err \<Rightarrow> Inl err
              | Inr t \<Rightarrow> Inr (t, t, orderCount s))"
    if lt: "orderCount s < 18446744073709551615"
  proof -
    define n where "n = unat (orderCount s)"
    have n: "n < 2 ^ 64 - 1"
      using lt by (simp add: n_def word_less_nat_alt)
    have c: "orderCount s = of_nat n" by (simp add: n_def)
    have "statsLoop s (of_nat n) (of_nat 1) 0 = Some (checkedTotal (unat (0 :: u256) + lockedTotal s 1 n))"
      by (rule statsLoop_total [OF n]) simp
    then have "statsLoop s (orderCount s) 1 0 = Some (checkedTotal (lockedTotal s 1 n))"
      by (simp add: c)
    then show ?thesis
      unfolding getEscrowStats_def Let_def orderCount_def [symmetric] n_def [symmetric]
      by (simp split: sum.splits)
  qed
  have b: "orderCount (run tr deployed) < 18446744073709551615"
    if "length tr < 18446744073709551615"
    using that counter_le_length [of tr] by (simp add: word_less_nat_alt)
  show ?thesis using a b by blast
qed

text \<open>
  The scenario of three orders, the second funded at 500 and the third disputed at 300:
  the result is 800, 800 and 3.
\<close>

theorem escrow_stats_witness:
  "orderCount (run t_market deployed) < 18446744073709551615
   \<and> length t_market < 18446744073709551615
   \<and> getEscrowStats (run t_market deployed) = Some (Inr (800, 800, 3))"
proof -
  have l: "length t_market < 18446744073709551615"
    by (simp add: t_market_def)
  have h: "orderCount (run t_market deployed) < 18446744073709551615"
    using escrow_stats [of _ t_market] l by blast
  have c: "orderCount (run t_market deployed) = 3"
    by (simp add: sample_defs exec_defs)
  have f: "fundedLocked (run t_market deployed) 1 = 0"
    "fundedLocked (run t_market deployed) 2 = 500"
    "fundedLocked (run t_market deployed) 3 = 300"
    by (simp_all add: fundedLocked_def sample_defs exec_defs)
  have "[1 ..< Suc 3] = [1, 2, 3]"
    by (simp add: upt_rec)
  then have t: "lockedTotal (run t_market deployed) 1 3 = 800"
    by (simp add: lockedTotal_def f del: upt_Suc)
  have u: "unat (orderCount (run t_market deployed)) = 3"
    by (simp add: c)
  have "getEscrowStats (run t_market deployed) =
      Some (case checkedTotal 800 of Inl err \<Rightarrow> Inl err
            | Inr t \<Rightarrow> Inr (t, t, orderCount (run t_market deployed)))"
    using escrow_stats [of "run t_market deployed"] h unfolding u t by blast
  then show ?thesis using h l
    by (simp add: c checkedTotal_def)
qed

text \<open>
  Beyond those histories lies the one counter value \<open>2^64 - 1\<close>, the last that the checked
  increment of \<open>createOrder\<close> can store: there the loop condition \<open>i <= count\<close> holds for
  every \<open>u64\<close> and the unchecked \<open>i++\<close> wraps, so the loop does not leave.
\<close>

lemma stats_at_last_counter:
  "getEscrowStats (run (many_creates 18446744073709551615) deployed) = None"
proof -
  have "orderCount (run (many_creates 18446744073709551615) deployed) = - 1"
    and n: "no_escrow (run (many_creates 18446744073709551615) deployed)"
    using many_creates_run [of 18446744073709551615] by simp_all
  then have c: "toU64 (loadU256 (run (many_creates 18446744073709551615) deployed)
      PTR_ORDER_COUNT (replicate 32 0)) = - 1"
    by (simp add: orderCount_def)
  have "statsLoop (run (many_creates 18446744073709551615) deployed) (- 1) 1 0 = None"
    using statsLoop_wraps [of "run (many_creates 18446744073709551615) deployed" "- 1" 1 0] n
    by (cases "statsLoop (run (many_creates 18446744073709551615) deployed) (- 1) 1 0") auto
  then show ?thesis
    unfolding getEscrowStats_def Let_def c by simp
qed

subsection \<open>C3: storage keys\<close>

text \<open>
  Claim C3. \<open>resolve\<close> is a function of the field and the order id alone. For order
  ids from 1 to 9899 two per-order fields resolve to the same key only when field and id
  agree, and no per-order key is the key of the order counter. The six wide pointers are
  pairwise distinct; the sub-pointer has 32 bytes, its upper 24 are zero and its lower 8
  are the order id, most significant byte first; in that range the seller pointer is
  \<open>100 + orderId\<close> and the buyer pointer \<open>10000 + orderId\<close>, and neither is one of
  the wide pointers. The order counter is one slot for the whole contract: pointer 1 with
  the all-zero sub-pointer.
\<close>

theorem storage_keys_injective:
  "(1 \<le> i \<and> i \<le> 9899 \<and> 1 \<le> j \<and> j \<le> 9899 \<and> resolve f i = resolve g j \<longrightarrow> f = g \<and> i = j)
   \<and> resolve f i \<noteq> orderCountKey
   \<and> distinct [PTR_ORDER_COUNT, PTR_PRICE, PTR_LOCKED, PTR_STATE, PTR_DEADLINE, PTR_ACCEPTED_AT]
   \<and> length (subPtr i) = 32 \<and> (\<forall>n < 24. subPtr i ! n = 0)
   \<and> (\<forall>k < 8. \<forall>n < 8. bit (subPtr i ! (24 + k)) n = bit i (8 * (7 - k) + n))
   \<and> (i \<le> 9899 \<longrightarrow> unat (sellerPtr i) = 100 + unat i \<and> unat (buyerPtr i) = 10000 + unat i)
   \<and> (1 \<le> i \<and> i \<le> 9899 \<longrightarrow>
        sellerPtr i \<notin> set [PTR_ORDER_COUNT, PTR_PRICE, PTR_LOCKED, PTR_STATE, PTR_DEADLINE, PTR_ACCEPTED_AT]
        \<and> buyerPtr i \<notin> set [PTR_ORDER_COUNT, PTR_PRICE, PTR_LOCKED, PTR_STATE, PTR_DEADLINE, PTR_ACCEPTED_AT])"
proof -
  have a: "1 \<le> i \<and> i \<le> 9899 \<and> 1 \<le> j \<and> j \<le> 9899 \<and> resolve f i = resolve g j \<longrightarrow> f = g \<and> i = j"
    using resolve_inj [of i j f g] by blast
  have b: "resolve f i \<noteq> orderCountKey"
    by (cases f) (simp_all add: orderCountKey_def)
  have c: "distinct [PTR_ORDER_COUNT, PTR_PRICE, PTR_LOCKED, PTR_STATE, PTR_DEADLINE, PTR_ACCEPTED_AT]"
    by simp
  have d: "i \<le> 9899 \<longrightarrow> unat (sellerPtr i) = 100 + unat i \<and> unat (buyerPtr i) = 10000 + unat i"
    using ptr_in_range [of i] by (auto simp: word_le_nat_alt)
  have e: "1 \<le> i \<and> i \<le> 9899 \<longrightarrow>
        sellerPtr i \<notin> set [PTR_ORDER_COUNT, PTR_PRICE, PTR_LOCKED, PTR_STATE, PTR_DEADLINE, PTR_ACCEPTED_AT]
        \<and> buyerPtr i \<notin> set [PTR_ORDER_COUNT, PTR_PRICE, PTR_LOCKED, PTR_STATE, PTR_DEADLINE, PTR_ACCEPTED_AT]"
    using narrow_not_wide [of i] by blast
  show ?thesis using a b c d e subPtr_structure [of i] by blast
qed

theorem storage_keys_injective_witness:
  "(1 :: u64) \<le> 5 \<and> (5 :: u64) \<le> 9899 \<and> resolve Price 5 = resolve Price 5
   \<and> resolve Seller 5 \<noteq> orderCountKey
   \<and> subPtr 5 ! 0 = 0 \<and> bit (subPtr 5 ! 31) 0
   \<and> unat (sellerPtr 5) = 105 \<and> unat (buyerPtr 5) = 10005
   \<and> sellerPtr 5 \<noteq> PTR_ORDER_COUNT \<and> buyerPtr 5 \<noteq> PTR_STATE"
proof -
  have h: "(1 :: u64) \<le> 5 \<and> (5 :: u64) \<le> 9899 \<and> (1 :: u64) \<le> 5 \<and> (5 :: u64) \<le> 9899
      \<and> resolve Price 5 = resolve Price 5"
    by simp
  note t = storage_keys_injective [of 5 5 Price Price]
  note t' = storage_keys_injective [of 5 5 Seller Seller]
  from t h have "Price = Price \<and> (5 :: u64) = 5" by blast
  moreover from t' have "resolve Seller 5 \<noteq> orderCountKey" by blast
  moreover from t have "\<forall>n < 24. subPtr 5 ! n = 0" by blast
  then have "subPtr 5 ! 0 = 0" by simp
  moreover from t have "\<forall>k < 8. \<forall>n < 8. bit (subPtr 5 ! (24 + k)) n = bit (5 :: u64) (8 * (7 - k) + n)"
    by blast
  from this [rule_format, of 7 0] have "bit (subPtr 5 ! 31) 0" by simp
  moreover from t h have "unat (sellerPtr 5) = 100 + unat (5 :: u64) \<and> unat (buyerPtr 5) = 10000 + unat (5 :: u64)"
    by blast
  then have "unat (sellerPtr 5) = 105 \<and> unat (buyerPtr 5) = 10005" by simp
  moreover from t h have "sellerPtr 5 \<notin> set [PTR_ORDER_COUNT, PTR_PRICE, PTR_LOCKED, PTR_STATE,
      PTR_DEADLINE, PTR_ACCEPTED_AT] \<and> buyerPtr 5 \<notin> set [PTR_ORDER_COUNT, PTR_PRICE, PTR_LOCKED,
      PTR_STATE, PTR_DEADLINE, PTR_ACCEPTED_AT]"
    by blast
  then have "sellerPtr 5 \<noteq> PTR_ORDER_COUNT \<and> buyerPtr 5 \<noteq> PTR_STATE" by simp
  ultimately show ?thesis using h by blast
qed

subsection \<open>C4: aborted calls\<close>

text \<open>
  Claim C4. A call of any of the six mutating methods that aborts leaves the store as it
  was before the call, and a call aborts exactly when its body does. Every abort of a body
  comes before the body's first write, except the deadline overflow of \<open>createOrder\<close>,
  which comes after the writes of the counter, the seller, the price, the locked amount
  and the state: there it is the host's revert that discards them.
\<close>

theorem failed_call_leaves_storage:
  "(isl (fst (invoke e c s)) \<longrightarrow> snd (invoke e c s) = s)
   \<and> (isl (fst (invoke e c s)) \<longleftrightarrow> isl (body e c s))
   \<and> (\<forall>err s_abort. body e c s = Inl (err, s_abort) \<longrightarrow>
         s_abort = s \<or>
         (\<exists>price deadlineBlocks. c = CreateOrder price deadlineBlocks \<and> err = AdditionOverflow
            \<and> 2 ^ 64 \<le> unat (blockNumber e) + unat deadlineBlocks))"
  apply (cases c)
  apply (auto simp: invoke_def retId_def retOk_def op_defs Let_def add64_Inl
      split: sum.splits if_splits prod.splits)
  done

text \<open>
  An \<open>acceptOrder\<close> on an order that does not exist, and a \<open>createOrder\<close> at the last
  block number, whose body has already stored the counter 1 when the deadline overflows.
\<close>

theorem failed_call_leaves_storage_witness:
  "isl (fst (invoke (env_of bob 101) (AcceptOrder 7) deployed))
   \<and> snd (invoke (env_of bob 101) (AcceptOrder 7) deployed) = deployed
   \<and> isl (fst (invoke (env_of alice (- 1)) (CreateOrder 500 6) deployed))
   \<and> snd (invoke (env_of alice (- 1)) (CreateOrder 500 6) deployed) = deployed
   \<and> isl (body (env_of alice (- 1)) (CreateOrder 500 6) deployed)
   \<and> orderCount (snd (projl (body (env_of alice (- 1)) (CreateOrder 500 6) deployed))) = 1"
proof -
  have h: "isl (fst (invoke (env_of bob 101) (AcceptOrder 7) deployed))"
    "isl (fst (invoke (env_of alice (- 1)) (CreateOrder 500 6) deployed))"
    by (simp_all add: sample_defs exec_defs)
  have b: "body (env_of alice (- 1)) (CreateOrder 500 6) deployed
      = Inl (AdditionOverflow, snd (projl (body (env_of alice (- 1)) (CreateOrder 500 6) deployed)))"
    "orderCount (snd (projl (body (env_of alice (- 1)) (CreateOrder 500 6) deployed))) = 1"
    by (simp_all add: sample_defs exec_defs)
  note t1 = failed_call_leaves_storage [of "env_of bob 101" "AcceptOrder 7" deployed]
  note t2 = failed_call_leaves_storage [of "env_of alice (- 1)" "CreateOrder 500 6" deployed]
  from t1 h(1) have "snd (invoke (env_of bob 101) (AcceptOrder 7) deployed) = deployed" by blast
  moreover from t2 h(2) have "snd (invoke (env_of alice (- 1)) (CreateOrder 500 6) deployed) = deployed"
    and "isl (body (env_of alice (- 1)) (CreateOrder 500 6) deployed)" by blast+
  ultimately show ?thesis using h b(2) by blast
qed

subsection \<open>C5: terminal states\<close>

text \<open>
  Claim C5. Once an order of a reachable store is Completed or Cancelled, then after any
  further history of calls every \<open>acceptOrder\<close>, \<open>fundOrder\<close>, \<open>confirmCompletion\<close>,
  \<open>cancelOrder\<close> and \<open>openDispute\<close> on that order aborts and leaves the store as it
  is, and the state of the order is still the same.
\<close>

theorem terminal_states:
  assumes "s = run tr deployed"
    and "stateOf s orderId = STATE_COMPLETED \<or> stateOf s orderId = STATE_CANCELLED"
  shows "(\<forall>tr' e c. c \<in> targets orderId \<longrightarrow>
            isl (fst (invoke e c (run tr' s))) \<and> snd (invoke e c (run tr' s)) = run tr' s)
    \<and> (\<forall>tr'. stateOf (run tr' s) orderId = stateOf s orderId)"
proof -
  have inv: "exists_inv s"
    unfolding assms(1) by (rule exists_inv_run [OF exists_inv_deployed])
  have keep: "\<And>tr'. stateOf (run tr' s) orderId = stateOf s orderId"
    using inv assms(2) by (rule terminal_run)
  have "\<And>tr' e c. c \<in> targets orderId \<Longrightarrow>
      isl (fst (invoke e c (run tr' s))) \<and> snd (invoke e c (run tr' s)) = run tr' s"
  proof -
    fix tr' e c assume c: "c \<in> targets orderId"
    have "stateOf (run tr' s) orderId = STATE_COMPLETED \<or> stateOf (run tr' s) orderId = STATE_CANCELLED"
      using keep [of tr'] assms(2) by simp
    then show "isl (fst (invoke e c (run tr' s))) \<and> snd (invoke e c (run tr' s)) = run tr' s"
      using c by (intro targets_fail) (auto simp: state_defs)
  qed
  then show ?thesis using keep by blast
qed

theorem terminal_states_witness:
  "stateOf (run t_complete deployed) 1 = STATE_COMPLETED
   \<and> isl (fst (invoke (env_of alice 104) (CancelOrder 1) (run t_complete deployed)))
   \<and> isl (fst (invoke (env_of bob 104) (OpenDispute 1)
        (run [(env_of alice 104, CreateOrder 9 6)] (run t_complete deployed))))
   \<and> stateOf (run [(env_of bob 105, FundOrder 1), (env_of alice 106, CreateOrder 9 6)]
        (run t_complete deployed)) 1 = STATE_COMPLETED"
proof -
  have h: "stateOf (run t_complete deployed) 1 = STATE_COMPLETED
      \<or> stateOf (run t_complete deployed) 1 = STATE_CANCELLED"
    by (simp add: sample_fields)
  have m: "CancelOrder 1 \<in> targets 1" "OpenDispute 1 \<in> targets 1"
    by (simp_all add: targets_def)
  note t = terminal_states [OF refl h]
  from t m(1) have "isl (fst (invoke (env_of alice 104) (CancelOrder 1) (run [] (run t_complete deployed))))"
    by blast
  then have a: "isl (fst (invoke (env_of alice 104) (CancelOrder 1) (run t_complete deployed)))"
    by simp
  from t m(2) have b: "isl (fst (invoke (env_of bob 104) (OpenDispute 1)
        (run [(env_of alice 104, CreateOrder 9 6)] (run t_complete deployed))))"
    by blast
  from t have c: "stateOf (run [(env_of bob 105, FundOrder 1), (env_of alice 106, CreateOrder 9 6)]
        (run t_complete deployed)) 1 = stateOf (run t_complete deployed) 1"
    by blast
  from a b c sample_fields(4) show ?thesis by simp
qed

subsection \<open>C6: the buyer of an order\<close>

text \<open>
  Claim C6, as the code has it. Take a history of calls whose senders are not the zero
  address, leading to at most 9900 orders. For every order that exists then: if it is
  Created its buyer is the zero address, and if its buyer is the zero address it is Created
  or Cancelled (an order cancelled before anyone accepted it keeps the zero buyer). A
  successful \<open>acceptOrder\<close> takes the order from Created to Accepted and sets its buyer to
  the caller.
\<close>

theorem buyer_zero_amended:
  assumes "\<forall>ec \<in> set tr. sender (fst ec) \<noteq> zero_address"
    and "s = run tr deployed"
    and "orderCount s \<le> 9900" and "1 \<le> orderId" and "orderId \<le> orderCount s"
  shows "(stateOf s orderId = STATE_CREATED \<longrightarrow> buyerOf s orderId = zero_address)
    \<and> (buyerOf s orderId = zero_address \<longrightarrow>
          stateOf s orderId = STATE_CREATED \<or> stateOf s orderId = STATE_CANCELLED)
    \<and> (acceptOrder e orderId s = Inr (ok, s') \<longrightarrow>
          stateOf s orderId = STATE_CREATED \<and> stateOf s' orderId = STATE_ACCEPTED
          \<and> buyerOf s' orderId = sender e)"
proof -
  have inv: "states_inv s" "buyer_inv s"
    using invs_run [OF assms(1) exists_inv_deployed states_inv_deployed buyer_inv_deployed]
    by (simp_all add: assms(2))
  have r: "1 \<le> orderId \<and> orderId \<le> 9900"
    using assms(3,4,5) by simp
  have st: "stateOf s orderId \<in> {STATE_CREATED, STATE_ACCEPTED, STATE_FUNDED, STATE_COMPLETED,
      STATE_CANCELLED, STATE_DISPUTED}"
    using inv(1) assms(4,5) unfolding states_inv_def by blast
  have b: "(stateOf s orderId = STATE_CREATED \<longrightarrow> buyerOf s orderId = zero_address)
     \<and> (stateOf s orderId \<in> {STATE_ACCEPTED, STATE_FUNDED, STATE_COMPLETED, STATE_DISPUTED}
          \<longrightarrow> buyerOf s orderId \<noteq> zero_address)"
    using inv(2) assms(3) r unfolding buyer_inv_def by blast
  have a: "acceptOrder e orderId s = Inr (ok, s') \<longrightarrow>
          stateOf s orderId = STATE_CREATED \<and> stateOf s' orderId = STATE_ACCEPTED
          \<and> buyerOf s' orderId = sender e"
    by (auto simp: acceptOrder_Inr field_defs)
  show ?thesis using st b a by auto
qed

theorem buyer_zero_amended_witness:
  "stateOf (run t_create deployed) 1 = STATE_CREATED
   \<and> buyerOf (run t_create deployed) 1 = zero_address
   \<and> orderCount (run t_create deployed) = 1
   \<and> acceptOrder (env_of bob 101) 1 (run t_create deployed)
        = Inr (True, snd (invoke (env_of bob 101) (AcceptOrder 1) (run t_create deployed)))
   \<and> buyerOf (snd (invoke (env_of bob 101) (AcceptOrder 1) (run t_create deployed))) 1 = bob"
proof -
  have h: "\<forall>ec \<in> set t_create. sender (fst ec) \<noteq> zero_address"
    "orderCount (run t_create deployed) \<le> 9900" "(1 :: u64) \<le> 1"
    "1 \<le> orderCount (run t_create deployed)"
    "stateOf (run t_create deployed) 1 = STATE_CREATED"
    "orderCount (run t_create deployed) = 1"
    by (simp_all add: sample_defs exec_defs)
  have k: "acceptOrder (env_of bob 101) 1 (run t_create deployed)
        = Inr (True, snd (invoke (env_of bob 101) (AcceptOrder 1) (run t_create deployed)))"
    by (simp add: sample_defs exec_defs)
  have e: "sender (env_of bob 101) = bob" by (simp add: env_of_def)
  from buyer_zero_amended [OF h(1) refl h(2) h(3) h(4), of "env_of bob 101" True
      "snd (invoke (env_of bob 101) (AcceptOrder 1) (run t_create deployed))"] h(5) h(6) k e
  show ?thesis by simp
qed

text \<open>
  The seller creates an order and cancels it: the order is Cancelled, not Created, and
  its buyer is the zero address. The two conditions of the theorem are needed as well:
  the 9901st creation stores its seller in the slot of the buyer of order 1
  (\<open>100 + 9901 = 10000 + 1\<close>), which is still Created, and an acceptance sent from the
  zero address leaves an Accepted order with the zero buyer.
\<close>

theorem cancelled_order_without_buyer:
  "\<not> (buyerOf (run t_cancel deployed) 1 = zero_address
        \<longleftrightarrow> stateOf (run t_cancel deployed) 1 = STATE_CREATED)
   \<and> orderCount (run t_cancel deployed) = 1
   \<and> \<not> (buyerOf (run (many_creates 9901) deployed) 1 = zero_address
        \<longleftrightarrow> stateOf (run (many_creates 9901) deployed) 1 = STATE_CREATED)
   \<and> \<not> (buyerOf (run t_unsigned deployed) 1 = zero_address
        \<longleftrightarrow> stateOf (run t_unsigned deployed) 1 = STATE_CREATED)"
proof -
  have a: "\<not> (buyerOf (run t_cancel deployed) 1 = zero_address
        \<longleftrightarrow> stateOf (run t_cancel deployed) 1 = STATE_CREATED)"
    "orderCount (run t_cancel deployed) = 1"
    by (simp_all add: sample_defs exec_defs)
  have b: "\<not> (buyerOf (run (many_creates 9901) deployed) 1 = zero_address
        \<longleftrightarrow> stateOf (run (many_creates 9901) deployed) 1 = STATE_CREATED)"
    using overlap_at_9901 by (simp add: alice_def zero_address_def)
  have c: "\<not> (buyerOf (run t_unsigned deployed) 1 = zero_address
        \<longleftrightarrow> stateOf (run t_unsigned deployed) 1 = STATE_CREATED)"
    by (simp add: t_unsigned_def sample_defs exec_defs)
  from a b c show ?thesis by blast
qed

subsection \<open>C7: order ids\<close>

text \<open>
  Claim C7. A successful \<open>createOrder\<close> returns the order counter it has just stored,
  which is the counter before the call plus one. Along any history from deployment the
  ids returned by the successful creations are 1, 2, 3 and so on, strictly increasing, and
  the counter at the end is their number.
\<close>

theorem order_ids_increase:
  "(createOrder e price deadlineBlocks s = Inr (orderId, s') \<longrightarrow>
      loadU256 s' PTR_ORDER_COUNT (replicate 32 0) = fromU64 orderId
      \<and> orderCount s' = orderId \<and> orderId = orderCount s + 1 \<and> orderCount s < orderId)
   \<and> createdIds tr deployed = map of_nat [1 ..< Suc (length (createdIds tr deployed))]
   \<and> sorted_wrt (<) (createdIds tr deployed)
   \<and> length (createdIds tr deployed) < 2 ^ 64
   \<and> orderCount (run tr deployed) = of_nat (length (createdIds tr deployed))"
proof -
  define n where "n = length (createdIds tr deployed)"
  from createdIds_run [of tr deployed]
  have ids: "createdIds tr deployed = map of_nat [1 ..< Suc n]"
    and cnt: "unat (orderCount (run tr deployed)) = n"
    by (simp_all add: n_def)
  have n: "n < 2 ^ 64"
    using unsigned_less [of "orderCount (run tr deployed)", where ?'a = nat] cnt by simp
  have c: "orderCount (run tr deployed) = of_nat n"
    using cnt by (metis of_nat_unat ucast_id)
  have srt: "sorted_wrt (<) (createdIds tr deployed)"
    unfolding ids using n by (rule sorted_word_of_nat)
  have one: "createOrder e price deadlineBlocks s = Inr (orderId, s') \<longrightarrow>
      loadU256 s' PTR_ORDER_COUNT (replicate 32 0) = fromU64 orderId
      \<and> orderCount s' = orderId \<and> orderId = orderCount s + 1 \<and> orderCount s < orderId"
    using unat_succ [of "orderCount s"]
    by (auto simp: createOrder_Inr orderCount_def word_less_nat_alt)
  show ?thesis using ids srt n c one unfolding n_def by blast
qed

theorem order_ids_increase_witness:
  "createOrder (env_of alice 100) 500 6 deployed = Inr (1, run t_create deployed)
   \<and> orderCount (run t_create deployed) = 1
   \<and> loadU256 (run t_create deployed) PTR_ORDER_COUNT (replicate 32 0) = fromU64 1
   \<and> orderCount deployed < 1
   \<and> createdIds t_market deployed = [1, 2, 3]
   \<and> sorted_wrt (<) (createdIds t_market deployed)"
proof -
  note t = order_ids_increase [of "env_of alice 100" 500 6 deployed 1 "run t_create deployed" t_market]
  have l: "createdIds t_market deployed = [1, 2, 3]"
    by (simp add: sample_defs exec_defs)
  from t sample_steps(1) l show ?thesis by blast
qed

subsection \<open>C8: acceptOrder\<close>

text \<open>
  Claim C8. For every store, caller and order id, \<open>acceptOrder\<close> succeeds exactly
  when the order is Created and the block number is at most its deadline; otherwise it
  aborts and the store stays. After a success the buyer is the caller, acceptedAt is the
  block number, the order is Accepted, and every further \<open>acceptOrder\<close> on it aborts.
\<close>

theorem acceptOrder_iff:
  "(fst (invoke e (AcceptOrder orderId) s) = Inr (RetOk True)
      \<longleftrightarrow> stateOf s orderId = STATE_CREATED \<and> blockNumber e \<le> deadlineOf s orderId)
   \<and> (fst (invoke e (AcceptOrder orderId) s) \<noteq> Inr (RetOk True)
      \<longrightarrow> isl (fst (invoke e (AcceptOrder orderId) s)) \<and> snd (invoke e (AcceptOrder orderId) s) = s)
   \<and> (fst (invoke e (AcceptOrder orderId) s) = Inr (RetOk True)
      \<longrightarrow> buyerOf (snd (invoke e (AcceptOrder orderId) s)) orderId = sender e
        \<and> acceptedAtOf (snd (invoke e (AcceptOrder orderId) s)) orderId = blockNumber e
        \<and> stateOf (snd (invoke e (AcceptOrder orderId) s)) orderId = STATE_ACCEPTED
        \<and> (\<forall>e'. isl (fst (invoke e' (AcceptOrder orderId) (snd (invoke e (AcceptOrder orderId) s))))))"
  by (auto simp: invoke_def retOk_def acceptOrder_def field_defs Let_def state_defs)

theorem acceptOrder_iff_witness:
  "stateOf (run t_create deployed) 1 = STATE_CREATED
   \<and> blockNumber (env_of bob 101) \<le> deadlineOf (run t_create deployed) 1
   \<and> fst (invoke (env_of bob 101) (AcceptOrder 1) (run t_create deployed)) = Inr (RetOk True)
   \<and> buyerOf (snd (invoke (env_of bob 101) (AcceptOrder 1) (run t_create deployed))) 1
        = sender (env_of bob 101)
   \<and> acceptedAtOf (snd (invoke (env_of bob 101) (AcceptOrder 1) (run t_create deployed))) 1 = 101
   \<and> isl (fst (invoke (env_of alice 102) (AcceptOrder 1)
        (snd (invoke (env_of bob 101) (AcceptOrder 1) (run t_create deployed)))))
   \<and> fst (invoke (env_of bob 107) (AcceptOrder 1) (run t_create deployed)) \<noteq> Inr (RetOk True)
   \<and> snd (invoke (env_of bob 107) (AcceptOrder 1) (run t_create deployed)) = run t_create deployed"
proof -
  have h: "stateOf (run t_create deployed) 1 = STATE_CREATED
      \<and> blockNumber (env_of bob 101) \<le> deadlineOf (run t_create deployed) 1"
    by (simp add: sample_fields env_of_def)
  have g: "\<not> (stateOf (run t_create deployed) 1 = STATE_CREATED
      \<and> blockNumber (env_of bob 107) \<le> deadlineOf (run t_create deployed) 1)"
    by (simp add: sample_fields env_of_def)
  have b: "blockNumber (env_of bob 101) = 101" by (simp add: env_of_def)
  note t1 = acceptOrder_iff [of "env_of bob 101" 1 "run t_create deployed"]
  note t2 = acceptOrder_iff [of "env_of bob 107" 1 "run t_create deployed"]
  from t1 h have ok: "fst (invoke (env_of bob 101) (AcceptOrder 1) (run t_create deployed)) = Inr (RetOk True)"
    by blast
  from t2 g have ko: "fst (invoke (env_of bob 107) (AcceptOrder 1) (run t_create deployed)) \<noteq> Inr (RetOk True)"
    by blast
  from t1 ok t2 ko h b show ?thesis by metis
qed

subsection \<open>C9: reading back with getOrder\<close>

text \<open>
  Claim C9. After each successful mutating method, \<open>getOrder\<close> on the same order id
  returns what \<open>getOrder\<close> returned before with exactly the fields the method wrote
  replaced by the values written: seller, price, locked, state 1, deadline and acceptedAt
  for \<open>createOrder\<close>; buyer, state 2 and acceptedAt for \<open>acceptOrder\<close>; locked and
  state 3 for \<open>fundOrder\<close>; locked and state 4 for \<open>confirmCompletion\<close>; locked and
  state 5 for \<open>cancelOrder\<close>; state 6 for \<open>openDispute\<close>.
\<close>

theorem getOrder_reads_back:
  "(createOrder e price deadlineBlocks s = Inr (orderId, s') \<longrightarrow>
      getOrder orderId s' = (getOrder orderId s)\<lparr>v_seller := sender e, v_price := price,
        v_locked := 0, v_state := 1, v_deadline := blockNumber e + deadlineBlocks,
        v_acceptedAt := 0\<rparr>)
   \<and> (acceptOrder e orderId s = Inr (ok, s') \<longrightarrow>
      getOrder orderId s' = (getOrder orderId s)\<lparr>v_buyer := sender e, v_state := 2,
        v_acceptedAt := blockNumber e\<rparr>)
   \<and> (fundOrder e orderId s = Inr (ok, s') \<longrightarrow>
      getOrder orderId s' = (getOrder orderId s)\<lparr>v_locked := v_price (getOrder orderId s),
        v_state := 3\<rparr>)
   \<and> (confirmCompletion e orderId s = Inr (ok, s') \<longrightarrow>
      getOrder orderId s' = (getOrder orderId s)\<lparr>v_locked := 0, v_state := 4\<rparr>)
   \<and> (cancelOrder e orderId s = Inr (ok, s') \<longrightarrow>
      getOrder orderId s' = (getOrder orderId s)\<lparr>v_locked := 0, v_state := 5\<rparr>)
   \<and> (openDispute e orderId s = Inr (ok, s') \<longrightarrow>
      getOrder orderId s' = (getOrder orderId s)\<lparr>v_state := 6\<rparr>)"
  by (simp add: op_Inr getOrder_def priceOf_def Let_def)

text \<open>
  The sample order read back in each of the six states.
\<close>

theorem getOrder_reads_back_witness:
  "getOrder 1 (run t_create deployed) = \<lparr>v_orderId = 1, v_seller = alice, v_buyer = 0,
      v_price = 500, v_locked = 0, v_state = 1, v_deadline = 106, v_acceptedAt = 0\<rparr>
   \<and> getOrder 1 (run t_accept deployed) = \<lparr>v_orderId = 1, v_seller = alice, v_buyer = bob,
      v_price = 500, v_locked = 0, v_state = 2, v_deadline = 106, v_acceptedAt = 101\<rparr>
   \<and> getOrder 1 (run t_fund deployed) = \<lparr>v_orderId = 1, v_seller = alice, v_buyer = bob,
      v_price = 500, v_locked = 500, v_state = 3, v_deadline = 106, v_acceptedAt = 101\<rparr>
   \<and> getOrder 1 (run t_complete deployed) = \<lparr>v_orderId = 1, v_seller = alice, v_buyer = bob,
      v_price = 500, v_locked = 0, v_state = 4, v_deadline = 106, v_acceptedAt = 101\<rparr>
   \<and> getOrder 1 (run t_cancel deployed) = \<lparr>v_orderId = 1, v_seller = alice, v_buyer = 0,
      v_price = 500, v_locked = 0, v_state = 5, v_deadline = 106, v_acceptedAt = 0\<rparr>
   \<and> getOrder 1 (run t_dispute deployed) = \<lparr>v_orderId = 1, v_seller = alice, v_buyer = bob,
      v_price = 500, v_locked = 500, v_state = 6, v_deadline = 106, v_acceptedAt = 101\<rparr>"
proof -
  have z: "getOrder 1 deployed = \<lparr>v_orderId = 1, v_seller = 0, v_buyer = 0,
      v_price = 0, v_locked = 0, v_state = 0, v_deadline = 0, v_acceptedAt = 0\<rparr>"
    by (simp add: getOrder_def toU64_def)
  have e: "sender (env_of alice 100) = alice" "sender (env_of bob 101) = bob"
    "blockNumber (env_of alice 100) + 6 = 106" "blockNumber (env_of bob 101) = 101"
    by (simp_all add: env_of_def)
  from getOrder_reads_back [of "env_of alice 100" 500 6 deployed 1 "run t_create deployed"]
    sample_steps(1)
  have c: "getOrder 1 (run t_create deployed) = \<lparr>v_orderId = 1, v_seller = alice, v_buyer = 0,
      v_price = 500, v_locked = 0, v_state = 1, v_deadline = 106, v_acceptedAt = 0\<rparr>"
    by (simp add: z e)
  from getOrder_reads_back [of "env_of bob 101" _ _ "run t_create deployed" 1 "run t_accept deployed" True] sample_steps(2)
  have a: "getOrder 1 (run t_accept deployed) = \<lparr>v_orderId = 1, v_seller = alice, v_buyer = bob,
      v_price = 500, v_locked = 0, v_state = 2, v_deadline = 106, v_acceptedAt = 101\<rparr>"
    by (simp add: c e)
  from getOrder_reads_back [of "env_of bob 102" _ _ "run t_accept deployed" 1 "run t_fund deployed" True] sample_steps(3)
  have f: "getOrder 1 (run t_fund deployed) = \<lparr>v_orderId = 1, v_seller = alice, v_buyer = bob,
      v_price = 500, v_locked = 500, v_state = 3, v_deadline = 106, v_acceptedAt = 101\<rparr>"
    by (simp add: a)
  from getOrder_reads_back [of "env_of bob 103" _ _ "run t_fund deployed" 1 "run t_complete deployed" True] sample_steps(4)
  have d: "getOrder 1 (run t_complete deployed) = \<lparr>v_orderId = 1, v_seller = alice, v_buyer = bob,
      v_price = 500, v_locked = 0, v_state = 4, v_deadline = 106, v_acceptedAt = 101\<rparr>"
    by (simp add: f)
  from getOrder_reads_back [of "env_of alice 101" _ _ "run t_create deployed" 1 "run t_cancel deployed" True] sample_steps(5)
  have x: "getOrder 1 (run t_cancel deployed) = \<lparr>v_orderId = 1, v_seller = alice, v_buyer = 0,
      v_price = 500, v_locked = 0, v_state = 5, v_deadline = 106, v_acceptedAt = 0\<rparr>"
    by (simp add: c)
  from getOrder_reads_back [of "env_of alice 103" _ _ "run t_fund deployed" 1 "run t_dispute deployed" True] sample_steps(6)
  have p: "getOrder 1 (run t_dispute deployed) = \<lparr>v_orderId = 1, v_seller = alice, v_buyer = bob,
      v_price = 500, v_locked = 500, v_state = 6, v_deadline = 106, v_acceptedAt = 101\<rparr>"
    by (simp add: f)
  from c a f d x p show ?thesis by blast
qed

subsection \<open>C10: orders that do not exist\<close>

text \<open>
  Claim C10, as the code has it. In a reachable store, an order id that is 0 or above the
  order counter has the state 0; \<open>acceptOrder\<close>, \<open>fundOrder\<close>, \<open>confirmCompletion\<close>,
  \<open>cancelOrder\<close> and \<open>openDispute\<close> on it abort and leave the store as it is. No call
  other than \<open>createOrder\<close> gives it a nonzero state or changes its price, locked amount,
  deadline or acceptedAt: what \<open>getOrder\<close> returns for it changes at most in seller and
  buyer. While the id and the order counter are at most 9900, no call other than
  \<open>createOrder\<close> changes anything \<open>getOrder\<close> returns for it.
\<close>

theorem nonexistent_order_amended:
  assumes "s = run tr deployed"
    and "orderId = 0 \<or> orderCount s < orderId"
  shows "stateOf s orderId = 0
    \<and> (\<forall>e c. c \<in> targets orderId \<longrightarrow> isl (fst (invoke e c s)) \<and> snd (invoke e c s) = s)
    \<and> (\<forall>e c. (\<forall>price deadlineBlocks. c \<noteq> CreateOrder price deadlineBlocks) \<longrightarrow>
          stateOf (snd (invoke e c s)) orderId = 0
          \<and> getOrder orderId (snd (invoke e c s)) =
              (getOrder orderId s)\<lparr>v_seller := sellerOf (snd (invoke e c s)) orderId,
                 v_buyer := buyerOf (snd (invoke e c s)) orderId\<rparr>
          \<and> (orderId \<le> 9900 \<and> orderCount s \<le> 9900 \<longrightarrow>
                getOrder orderId (snd (invoke e c s)) = getOrder orderId s))"
proof -
  have inv: "exists_inv s"
    unfolding assms(1) by (rule exists_inv_run [OF exists_inv_deployed])
  have z: "stateOf s orderId = 0"
    using inv assms(2) by (rule nonexistent_zero)
  have t: "\<And>e c. c \<in> targets orderId \<Longrightarrow> isl (fst (invoke e c s)) \<and> snd (invoke e c s) = s"
    using z by (intro targets_fail) (auto simp: state_defs)
  have n: "stateOf (snd (invoke e c s)) orderId = 0
          \<and> getOrder orderId (snd (invoke e c s)) =
              (getOrder orderId s)\<lparr>v_seller := sellerOf (snd (invoke e c s)) orderId,
                 v_buyer := buyerOf (snd (invoke e c s)) orderId\<rparr>
          \<and> (orderId \<le> 9900 \<and> orderCount s \<le> 9900 \<longrightarrow>
                getOrder orderId (snd (invoke e c s)) = getOrder orderId s)"
    if c: "\<forall>p d. c \<noteq> CreateOrder p d" for e c
  proof -
    note w = untouched_wide [OF z c, of e]
    have a: "stateOf (snd (invoke e c s)) orderId = 0"
      using z c by (rule nonexistent_step)
    have b: "getOrder orderId (snd (invoke e c s)) =
              (getOrder orderId s)\<lparr>v_seller := sellerOf (snd (invoke e c s)) orderId,
                 v_buyer := buyerOf (snd (invoke e c s)) orderId\<rparr>"
      by (simp add: getOrder_def Let_def w sellerOf_def buyerOf_def)
    have d: "getOrder orderId (snd (invoke e c s)) = getOrder orderId s"
      if "orderId \<le> 9900 \<and> orderCount s \<le> 9900"
      using untouched_narrow [OF inv z c, of e] that
      by (simp add: getOrder_def Let_def w)
    show ?thesis using a b d by blast
  qed
  show ?thesis using z t n by blast
qed

theorem nonexistent_order_amended_witness:
  "orderCount (run t_create deployed) < 2
   \<and> stateOf (run t_create deployed) 2 = 0
   \<and> isl (fst (invoke (env_of bob 101) (AcceptOrder 2) (run t_create deployed)))
   \<and> snd (invoke (env_of bob 101) (CancelOrder 2) (run t_create deployed)) = run t_create deployed
   \<and> stateOf (snd (invoke (env_of bob 101) (AcceptOrder 1) (run t_create deployed))) 2 = 0
   \<and> getOrder 2 (snd (invoke (env_of bob 101) (AcceptOrder 1) (run t_create deployed)))
        = getOrder 2 (run t_create deployed)
   \<and> stateOf (run t_create deployed) 0 = 0
   \<and> isl (fst (invoke (env_of alice 101) (CancelOrder 0) (run t_create deployed)))"
proof -
  have h: "(2 :: u64) = 0 \<or> orderCount (run t_create deployed) < 2"
    "(0 :: u64) = 0 \<or> orderCount (run t_create deployed) < 0"
    "orderCount (run t_create deployed) < 2"
    "(2 :: u64) \<le> 9900 \<and> orderCount (run t_create deployed) \<le> 9900"
    by (simp_all add: sample_fields)
  have m: "AcceptOrder 2 \<in> targets 2" "CancelOrder 2 \<in> targets 2" "CancelOrder 0 \<in> targets 0"
    "\<forall>price deadlineBlocks. AcceptOrder 1 \<noteq> CreateOrder price deadlineBlocks"
    by (simp_all add: targets_def)
  from nonexistent_order_amended [OF refl h(1)] nonexistent_order_amended [OF refl h(2)] m h(3) h(4)
  show ?thesis by metis
qed

text \<open>
  Above that range the address slots of an order that does not exist are not its own:
  with one order created, \<open>acceptOrder\<close> on order 1 writes the pointer
  \<open>10000 + 1 = 100 + 9901\<close>, and \<open>getOrder\<close> on 9901 then returns the caller as seller.
\<close>

theorem nonexistent_seller_overwritten:
  "orderCount (run t_create deployed) < 9901
   \<and> v_seller (getOrder 9901 (run t_create deployed)) = 0
   \<and> fst (invoke (env_of bob 101) (AcceptOrder 1) (run t_create deployed)) = Inr (RetOk True)
   \<and> v_seller (getOrder 9901 (snd (invoke (env_of bob 101) (AcceptOrder 1) (run t_create deployed))))
        = bob
   \<and> bob \<noteq> 0"
  by (simp add: getOrder_def sellerPtr_def buyerPtr_def ptr_defs sample_defs exec_defs)

end
